theory Spec2Isabelle
  imports Main "HOL-Library.Sublist" "HOL-Library.Word"
begin

section \<open>Strings\<close>

text \<open>
  A \<^verbatim>\<open>QString\<close> is modelled as a \<^typ>\<open>string\<close>. The three string operations
  that \<^verbatim>\<open>spotifyblobdownloader.cpp\<close> calls belong to Qt; they are written out here
  as Qt documents them.
\<close>

text \<open>\<^verbatim>\<open>const char* SpotifyBlobDownloader::kSignatureSuffix = ".sha1";\<close>\<close>

definition kSignatureSuffix :: string where
  "kSignatureSuffix = ''.sha1''"

text \<open>\<^verbatim>\<open>s.endsWith(t)\<close>\<close>

definition endsWith :: "string \<Rightarrow> string \<Rightarrow> bool" where
  "endsWith s t = suffix t s"

text \<open>
  \<^verbatim>\<open>s.section('/', -1, -1)\<close>: the last of the fields that \<^verbatim>\<open>'/'\<close> separates,
  the whole string when it has no \<^verbatim>\<open>'/'\<close>.
\<close>

definition section_last :: "string \<Rightarrow> string" where
  "section_last s = rev (takeWhile (\<lambda>c. c \<noteq> CHR ''/'') (rev s))"

text \<open>
  \<^verbatim>\<open>s.remove(pat)\<close>: Qt searches for \<^verbatim>\<open>pat\<close> from the left, deletes the
  occurrence it finds and searches on from the same position, until none is left; an
  empty \<^verbatim>\<open>pat\<close> removes nothing.
\<close>

function remove_str :: "string \<Rightarrow> string \<Rightarrow> string" where
  "remove_str pat [] = []"
| "remove_str pat (c # cs) =
     (if pat \<noteq> [] \<and> prefix pat (c # cs)
      then remove_str pat (drop (length pat) (c # cs))
      else c # remove_str pat cs)"
  by pat_completeness auto
termination
  by (relation "measure (\<lambda>(pat, s). length s)") auto

text \<open>Suffix stripping, what the specification says the verifier does: the comparison
  point for \<^const>\<open>remove_str\<close>.\<close>

definition strip_suffix :: "string \<Rightarrow> string \<Rightarrow> string" where
  "strip_suffix sfx s = (if suffix sfx s then take (length s - length sfx) s else s)"

section \<open>Replies and the world outside\<close>

text \<open>
  What the downloader reads of a \<^verbatim>\<open>QNetworkReply\<close>: its URL, \<^verbatim>\<open>error()\<close>,
  \<^verbatim>\<open>errorString()\<close>, \<^verbatim>\<open>isFinished()\<close>, the bytes \<^verbatim>\<open>readAll()\<close> hands over,
  \<^verbatim>\<open>bytesAvailable()\<close> (a \<^verbatim>\<open>qint64\<close>) and \<^verbatim>\<open>rawHeader("Content-Length")\<close>;
  \<open>connected\<close> says whether the reply's signals still reach the downloader's slots.
\<close>

datatype NetworkError = NoError | OperationCanceledError | OtherNetworkError

record reply =
  url :: string
  error :: NetworkError
  errorString :: string
  isFinished :: bool
  readAll :: string
  bytesAvailable :: "64 word"
  content_length :: string
  connected :: bool

text \<open>
  Everything the file takes from elsewhere is a field of the environment:
  \<^verbatim>\<open>SpotifyService::kBlobDownloadUrl\<close> (declared in another file), \<^verbatim>\<open>QUrl::path()\<close>,
  the path \<^verbatim>\<open>Utilities::MakeTempDir()\<close> returns, whether \<^verbatim>\<open>QFile::open\<close>,
  \<^verbatim>\<open>QDir::mkpath\<close> and \<^verbatim>\<open>QFile::rename\<close> are granted by the operating system,
  the result of \<^verbatim>\<open>QCA::PublicKey::fromPEMFile\<close> (\<open>None\<close> unless the conversion
  result is \<^verbatim>\<open>ConvertGood\<close>) and \<^verbatim>\<open>QCA::PublicKey::verifyMessage\<close> with
  \<^verbatim>\<open>EMSA3_SHA1\<close>.
\<close>

record 'k env =
  kBlobDownloadUrl :: string
  url_path :: "string \<Rightarrow> string"
  temp_directory :: string
  can_write :: "string \<Rightarrow> bool"
  can_read :: "string \<Rightarrow> bool"
  can_mkpath :: "string \<Rightarrow> bool"
  can_rename :: "string \<Rightarrow> string \<Rightarrow> bool"
  fromPEMFile :: "'k option"
  verifyMessage :: "'k \<Rightarrow> string \<Rightarrow> string \<Rightarrow> bool"

section \<open>The file system\<close>

text \<open>
  Files by path, each with its bytes and its \<^verbatim>\<open>QFile::Permissions\<close>, directories by
  path, and a journal of the changes made, in the order the program made them.
\<close>

type_synonym stored_file = "string \<times> int"

datatype fs_op =
    OpMakeTempDir string
  | OpWrite string string
  | OpMkpath string
  | OpRename string string
  | OpRemoveRecursive string

record filesystem =
  files :: "string \<Rightarrow> stored_file option"
  dirs :: "string \<Rightarrow> bool"
  journal :: "fs_op list"

text \<open>
  Modelled from the spec: \<^verbatim>\<open>Utilities::MakeTempDir\<close> is defined in
  \<^verbatim>\<open>core/utilities.cpp\<close>, which is not among the sources. The specification's
  \<^verbatim>\<open>make_temp_dir() -> path\<close> creates a fresh directory and returns its path.
\<close>

definition MakeTempDir :: "'k env \<Rightarrow> filesystem \<Rightarrow> filesystem" where
  "MakeTempDir env f =
     f\<lparr>dirs := (dirs f)(temp_directory env := True),
       journal := journal f @ [OpMakeTempDir (temp_directory env)]\<rparr>"

text \<open>
  Modelled from the spec: \<^verbatim>\<open>Utilities::RemoveRecursive\<close> is defined in
  \<^verbatim>\<open>core/utilities.cpp\<close> as well. The specification's \<^verbatim>\<open>remove_recursive(path)\<close>
  deletes the directory and all it holds.
\<close>

definition RemoveRecursive :: "string \<Rightarrow> filesystem \<Rightarrow> filesystem" where
  "RemoveRecursive d f =
     f\<lparr>files := (\<lambda>p. if prefix (d @ ''/'') p then None else files f p),
       dirs := (\<lambda>p. if p = d \<or> prefix (d @ ''/'') p then False else dirs f p),
       journal := journal f @ [OpRemoveRecursive d]\<rparr>"

text \<open>\<^verbatim>\<open>file.setPermissions(QFile::Permissions(0x7755)); file.write(bytes);\<close> on a
  file opened with \<^verbatim>\<open>QIODevice::WriteOnly\<close>. The permissions 0x7755 are the number
  30549.\<close>

definition write_file :: "string \<Rightarrow> string \<Rightarrow> filesystem \<Rightarrow> filesystem" where
  "write_file p bytes f =
     f\<lparr>files := (files f)(p \<mapsto> (bytes, 30549)), journal := journal f @ [OpWrite p bytes]\<rparr>"

text \<open>\<^verbatim>\<open>file.open(QIODevice::ReadOnly)\<close> followed by \<^verbatim>\<open>readAll()\<close>: \<open>None\<close>
  when the file cannot be opened, because it is not there or the system refuses.\<close>

definition open_read :: "'k env \<Rightarrow> filesystem \<Rightarrow> string \<Rightarrow> string option" where
  "open_read env f p = (if can_read env p then map_option fst (files f p) else None)"

text \<open>\<^verbatim>\<open>QDir().mkpath(p)\<close>; the program ignores its result. Of the directories it
  creates only \<open>p\<close> itself is recorded.\<close>

definition mkpath :: "'k env \<Rightarrow> string \<Rightarrow> filesystem \<Rightarrow> filesystem" where
  "mkpath env p f =
     (if can_mkpath env p
      then f\<lparr>dirs := (dirs f)(p := True), journal := journal f @ [OpMkpath p]\<rparr>
      else f)"

text \<open>\<^verbatim>\<open>QFile::rename(src, dst)\<close>: fails when \<open>src\<close> is missing, when \<open>dst\<close>
  exists already, or when the system refuses; \<open>None\<close> is the result \<^verbatim>\<open>false\<close>.\<close>

definition rename :: "'k env \<Rightarrow> string \<Rightarrow> string \<Rightarrow> filesystem \<Rightarrow> filesystem option" where
  "rename env src dst f =
     (if files f src \<noteq> None \<and> files f dst = None \<and> can_rename env src dst
      then Some (f\<lparr>files := (files f)(dst := files f src, src := None),
                    journal := journal f @ [OpRename src dst]\<rparr>)
      else None)"

section \<open>The downloader\<close>

text \<open>
  The members of \<^verbatim>\<open>SpotifyBlobDownloader\<close> that the code reads or writes, and what
  it does to the outside: the arguments last handed to the progress dialog, the
  messages shown by \<^verbatim>\<open>QMessageBox::warning\<close>, the number of \<^verbatim>\<open>Finished()\<close>
  signals emitted, whether \<^verbatim>\<open>deleteLater()\<close> was called, and the file system.
  The members \<^verbatim>\<open>version_\<close>, \<^verbatim>\<open>path_\<close> and \<^verbatim>\<open>replies_\<close> are written
  \<open>version'\<close>, \<open>path'\<close> and \<open>replies'\<close>.
\<close>

record downloader =
  version' :: string
  path' :: string
  replies' :: "reply list"
  progress_shown :: bool
  progress_maximum :: "32 word"
  progress_value :: "32 word"
  warnings :: "string list"
  finished_emitted :: nat
  deleted :: bool
  fs :: filesystem

text \<open>\<^verbatim>\<open>network_->get(QNetworkRequest(url))\<close> and the two \<^verbatim>\<open>connect\<close> calls of
  \<^verbatim>\<open>Start\<close>: a reply that has received nothing yet.\<close>

definition network_get :: "string \<Rightarrow> reply" where
  "network_get u =
     \<lparr>url = u, error = NoError, errorString = [], isFinished = False, readAll = [],
      bytesAvailable = 0, content_length = [], connected = True\<rparr>"

definition Start :: "'k env \<Rightarrow> downloader \<Rightarrow> downloader" where
  "Start env s =
     (let filenames = [''blob'', ''blob'' @ kSignatureSuffix, ''libspotify.so.8''] in
      s\<lparr>replies' :=
           map (\<lambda>filename. network_get (kBlobDownloadUrl env @ version' s @ ''/'' @ filename))
             filenames,
        progress_shown := True\<rparr>)"

text \<open>\<^verbatim>\<open>disconnect(reply, 0, this, 0); reply->abort();\<close> A reply that is still
  running finishes with \<^verbatim>\<open>OperationCanceledError\<close>; a finished one stays as it is.\<close>

definition abort :: "reply \<Rightarrow> reply" where
  "abort r = (if isFinished r then r else r\<lparr>error := OperationCanceledError, isFinished := True\<rparr>)"

definition ShowError :: "string \<Rightarrow> downloader \<Rightarrow> downloader" where
  "ShowError message s =
     s\<lparr>replies' := map (\<lambda>r. abort (r\<lparr>connected := False\<rparr>)) (replies' s),
       warnings := warnings s @ [message],
       deleted := True\<rparr>"

definition EmitFinished :: "downloader \<Rightarrow> downloader" where
  "EmitFinished s = s\<lparr>finished_emitted := Suc (finished_emitted s), deleted := True\<rparr>"

definition Cancel :: "downloader \<Rightarrow> downloader" where
  "Cancel s = s\<lparr>deleted := True\<rparr>"

text \<open>\<^verbatim>\<open>reply->url().path().section('/', -1, -1)\<close>\<close>

definition filename_of :: "'k env \<Rightarrow> reply \<Rightarrow> string" where
  "filename_of env r = section_last (url_path env (url r))"

subsection \<open>\<^verbatim>\<open>ReplyFinished\<close>\<close>

text \<open>
  The first loop over \<^verbatim>\<open>replies_\<close> (lines 103 to 120): every reply's bytes are
  written to \<^verbatim>\<open>temp_directory + "/" + filename\<close>, and the paths that end in the
  signature suffix are collected. The result is the path that could not be opened for
  writing, if there was one, the file system and the signatures collected. (The buffers
  that \<^verbatim>\<open>readAll()\<close> empties are not read again by any later statement; the replies are
  left as they are.)
\<close>

fun save_files ::
  "'k env \<Rightarrow> reply list \<Rightarrow> filesystem \<Rightarrow> string list \<Rightarrow> string option \<times> filesystem \<times> string list"
where
  "save_files env [] f signatures = (None, f, signatures)"
| "save_files env (r # rs) f signatures =
     (let filename = filename_of env r;
          path = temp_directory env @ ''/'' @ filename
      in if \<not> can_write env path then (Some path, f, signatures)
         else save_files env rs (write_file path (readAll r) f)
                (if endsWith path kSignatureSuffix then signatures @ [path] else signatures))"

text \<open>The body of the second loop (lines 132 to 153) for one signature: \<open>None\<close> is
  the bare \<^verbatim>\<open>return\<close> after a failed \<^verbatim>\<open>open(QIODevice::ReadOnly)\<close>, otherwise
  the result of \<^verbatim>\<open>verifyMessage\<close>.\<close>

definition check_signature :: "'k env \<Rightarrow> filesystem \<Rightarrow> 'k \<Rightarrow> string \<Rightarrow> bool option" where
  "check_signature env f key signature_filename =
     (let filename = remove_str kSignatureSuffix signature_filename in
      case open_read env f filename of
        None \<Rightarrow> None
      | Some actual \<Rightarrow>
          (case open_read env f signature_filename of
             None \<Rightarrow> None
           | Some signature \<Rightarrow> Some (verifyMessage env key actual signature)))"

datatype verification = VerificationOK | OpenFailed | Invalid string

fun verify_signatures :: "'k env \<Rightarrow> filesystem \<Rightarrow> 'k \<Rightarrow> string list \<Rightarrow> verification" where
  "verify_signatures env f key [] = VerificationOK"
| "verify_signatures env f key (signature_filename # rest) =
     (case check_signature env f key signature_filename of
        None \<Rightarrow> OpenFailed
      | Some False \<Rightarrow> Invalid (remove_str kSignatureSuffix signature_filename)
      | Some True \<Rightarrow> verify_signatures env f key rest)"

text \<open>The third loop (lines 158 to 172): the result is the destination path whose
  \<^verbatim>\<open>QFile::rename\<close> failed, if one did, and the file system.\<close>

fun move_files ::
  "'k env \<Rightarrow> string \<Rightarrow> reply list \<Rightarrow> filesystem \<Rightarrow> string option \<times> filesystem"
where
  "move_files env dir [] f = (None, f)"
| "move_files env dir (r # rs) f =
     (let filename = filename_of env r;
          source_path = temp_directory env @ ''/'' @ filename;
          dest_path = dir @ ''/'' @ filename
      in if endsWith filename kSignatureSuffix then move_files env dir rs f
         else (case rename env source_path dest_path f of
                 None \<Rightarrow> (Some dest_path, f)
               | Some f' \<Rightarrow> move_files env dir rs f'))"

text \<open>The \<^verbatim>\<open>return\<close> statement, or the end of the function, by which a call of
  \<^verbatim>\<open>ReplyFinished\<close> ends.\<close>

datatype exit =
    NetworkFailed
  | NotAllFinished
  | WriteOpenFailed
  | KeyLoadFailed
  | VerifyOpenFailed
  | InvalidSignature
  | MoveFailed
  | Installed

text \<open>\<open>sender\<close> is the reply whose \<^verbatim>\<open>finished()\<close> signal runs the slot.\<close>

definition ReplyFinished :: "'k env \<Rightarrow> reply \<Rightarrow> downloader \<Rightarrow> exit \<times> downloader" where
  "ReplyFinished env sender s =
     (if error sender \<noteq> NoError then (NetworkFailed, ShowError (errorString sender) s)
      else if list_ex (\<lambda>r. \<not> isFinished r) (replies' s) then (NotAllFinished, s)
      else
        (case save_files env (replies' s) (MakeTempDir env (fs s)) [] of
           (Some path, f, signatures) \<Rightarrow>
             (WriteOpenFailed,
              ShowError (''Failed to open file for writing: '' @ path) (s\<lparr>fs := f\<rparr>))
         | (None, f, signatures) \<Rightarrow>
             (case fromPEMFile env of
                None \<Rightarrow>
                  (KeyLoadFailed, ShowError ''Failed to load Spotify public key'' (s\<lparr>fs := f\<rparr>))
              | Some key \<Rightarrow>
                  (case verify_signatures env f key signatures of
                     OpenFailed \<Rightarrow> (VerifyOpenFailed, s\<lparr>fs := f\<rparr>)
                   | Invalid filename \<Rightarrow>
                       (InvalidSignature,
                        ShowError (''Invalid signature: '' @ filename) (s\<lparr>fs := f\<rparr>))
                   | VerificationOK \<Rightarrow>
                       (case move_files env (path' s) (replies' s) (mkpath env (path' s) f) of
                          (Some dest_path, f') \<Rightarrow>
                            (MoveFailed,
                             ShowError (''Writing file failed: '' @ dest_path) (s\<lparr>fs := f'\<rparr>))
                        | (None, f') \<Rightarrow>
                            (Installed,
                             EmitFinished
                               (s\<lparr>fs := RemoveRecursive (temp_directory env) f'\<rparr>)))))))"


subsection \<open>\<^verbatim>\<open>ReplyProgress\<close>\<close>

text \<open>
  \<^verbatim>\<open>QByteArray::toInt()\<close>, as Qt documents it: the text read as a decimal number
  with an optional sign; 0 when the text is not a number or the number is outside the
  range of \<^verbatim>\<open>int\<close>. An absent header is the empty text. (White space around the
  number is not considered: header values come without it.)
\<close>

definition digit_of :: "char \<Rightarrow> nat option" where
  "digit_of c =
     (let n = (of_char c :: nat) in if 48 \<le> n \<and> n \<le> 57 then Some (n - 48) else None)"

fun decimal :: "nat \<Rightarrow> string \<Rightarrow> nat option" where
  "decimal acc [] = Some acc"
| "decimal acc (c # cs) =
     (case digit_of c of None \<Rightarrow> None | Some d \<Rightarrow> decimal (10 * acc + d) cs)"

definition parse_int :: "string \<Rightarrow> int option" where
  "parse_int s =
     (case s of
        [] \<Rightarrow> None
      | c # cs \<Rightarrow>
          if c = CHR ''-'' then (if cs = [] then None else map_option (\<lambda>n. - int n) (decimal 0 cs))
          else if c = CHR ''+'' then (if cs = [] then None else map_option int (decimal 0 cs))
          else map_option int (decimal 0 s))"

definition toInt :: "string \<Rightarrow> 32 word" where
  "toInt s =
     (case parse_int s of
        None \<Rightarrow> 0
      | Some v \<Rightarrow> if - (2 ^ 31) \<le> v \<and> v < 2 ^ 31 then word_of_int v else 0)"

text \<open>
  \<^verbatim>\<open>progress\<close> and \<^verbatim>\<open>total\<close> are C++ \<^verbatim>\<open>int\<close>s, 32 bits wide.
  \<^verbatim>\<open>progress += reply->bytesAvailable()\<close> adds in \<^verbatim>\<open>qint64\<close> and converts the sum
  back to \<^verbatim>\<open>int\<close>, which keeps its low 32 bits; \<^verbatim>\<open>total += ...toInt()\<close> adds two
  \<^verbatim>\<open>int\<close>s, and an overflow there, which C++ leaves undefined, is taken to wrap
  around as the machine's addition does. The pair goes
  to \<^verbatim>\<open>setMaximum\<close> and \<^verbatim>\<open>setValue\<close>. (\<^verbatim>\<open>total\<close> is written \<open>total'\<close>.)
\<close>

definition ReplyProgress :: "downloader \<Rightarrow> downloader" where
  "ReplyProgress s =
     (case foldl
             (\<lambda>(progress, total') r.
                (ucast ((scast progress :: 64 word) + bytesAvailable r) :: 32 word,
                 total' + toInt (content_length r)))
             (0, 0) (replies' s) of
        (progress, total') \<Rightarrow> s\<lparr>progress_maximum := total', progress_value := progress\<rparr>)"

section \<open>What the specification says, for comparison\<close>

text \<open>The sum of the bytes received over all tasks, as a number.\<close>

definition bytes_received_sum :: "reply list \<Rightarrow> int" where
  "bytes_received_sum rs = sum_list (map (\<lambda>r. sint (bytesAvailable r)) rs)"

text \<open>The byte total of a task: the number its \<^verbatim>\<open>Content-Length\<close> announces, 0 when
  it announces none. The sum of the totals over all tasks.\<close>

definition bytes_total :: "reply \<Rightarrow> int" where
  "bytes_total r = (case parse_int (content_length r) of None \<Rightarrow> 0 | Some v \<Rightarrow> v)"

definition bytes_total_sum :: "reply list \<Rightarrow> int" where
  "bytes_total_sum rs = sum_list (map bytes_total rs)"

text \<open>The value a 32-bit \<^verbatim>\<open>int\<close> holds when it is given the number \<open>x\<close>.\<close>

definition int32 :: "int \<Rightarrow> int" where
  "int32 x = (x + 2 ^ 31) mod 2 ^ 32 - 2 ^ 31"

text \<open>
  The staging directory is the only place touched: every file outside it and every
  other directory is as before, and the journal has grown by the creation of the staging
  directory and by writes below it, nothing else.
\<close>

fun staging_op :: "string \<Rightarrow> fs_op \<Rightarrow> bool" where
  "staging_op tmp (OpMakeTempDir d) = (d = tmp)"
| "staging_op tmp (OpWrite p bytes) = prefix (tmp @ ''/'') p"
| "staging_op tmp (OpMkpath p) = False"
| "staging_op tmp (OpRename src dst) = False"
| "staging_op tmp (OpRemoveRecursive d) = False"

definition staging_only :: "string \<Rightarrow> filesystem \<Rightarrow> filesystem \<Rightarrow> bool" where
  "staging_only tmp before after \<longleftrightarrow>
     (\<forall>p. \<not> prefix (tmp @ ''/'') p \<longrightarrow> files after p = files before p) \<and>
     (\<forall>d. d \<noteq> tmp \<longrightarrow> dirs after d = dirs before d) \<and>
     (\<exists>ops. journal after = journal before @ ops \<and> list_all (staging_op tmp) ops)"

text \<open>The terminal reports delivered so far: the failure messages shown and the
  \<^verbatim>\<open>Finished()\<close> signals emitted.\<close>

definition reports :: "downloader \<Rightarrow> nat" where
  "reports s = length (warnings s) + finished_emitted s"

text \<open>Where a reply's file is staged and where it is installed.\<close>

definition source_path_of :: "'k env \<Rightarrow> reply \<Rightarrow> string" where
  "source_path_of env r = temp_directory env @ ''/'' @ filename_of env r"

definition dest_path_of :: "'k env \<Rightarrow> string \<Rightarrow> reply \<Rightarrow> string" where
  "dest_path_of env dir r = dir @ ''/'' @ filename_of env r"

definition is_signature :: "'k env \<Rightarrow> reply \<Rightarrow> bool" where
  "is_signature env r = endsWith (filename_of env r) kSignatureSuffix"

text \<open>
  One verification, with the path of the artifact given: the verifier is invoked on the
  bytes of the artifact file and of the signature file, both read from the file system;
  there is no verdict when one of them cannot be opened. The specification takes the
  artifact at \<^term>\<open>strip_suffix kSignatureSuffix signature_path\<close>.
\<close>

definition verify_against ::
  "'k env \<Rightarrow> filesystem \<Rightarrow> 'k \<Rightarrow> string \<Rightarrow> string \<Rightarrow> bool option" where
  "verify_against env f key artifact_path signature_path =
     (case open_read env f artifact_path of
        None \<Rightarrow> None
      | Some artifact \<Rightarrow>
          (case open_read env f signature_path of
             None \<Rightarrow> None
           | Some signature \<Rightarrow> Some (verifyMessage env key artifact signature)))"

section \<open>A concrete run\<close>

text \<open>
  The path of a URL of the form \<^verbatim>\<open>scheme://authority/path?query#fragment\<close> that has
  no percent escapes: the model of \<^verbatim>\<open>QUrl::path()\<close> in the example.
\<close>

fun after_authority :: "string \<Rightarrow> string" where
  "after_authority (a # b # c # rest) =
     (if [a, b, c] = ''://'' then dropWhile (\<lambda>x. x \<noteq> CHR ''/'') rest
      else after_authority (b # c # rest))"
| "after_authority rest = []"

definition plain_url_path :: "string \<Rightarrow> string" where
  "plain_url_path u = takeWhile (\<lambda>c. c \<noteq> CHR ''?'' \<and> c \<noteq> CHR ''#'') (after_authority u)"

text \<open>
  An environment in which every file operation is granted and the key loads. The
  stand-in for the signature scheme accepts exactly the reversed message as its
  signature.
\<close>

definition example_env :: "nat env" where
  "example_env =
     \<lparr>kBlobDownloadUrl = ''http://spotify.clementine-player.org/'',
      url_path = plain_url_path,
      temp_directory = ''/tmp/qt_temp.AbCdEf'',
      can_write = (\<lambda>p. True),
      can_read = (\<lambda>p. True),
      can_mkpath = (\<lambda>p. True),
      can_rename = (\<lambda>src dst. True),
      fromPEMFile = Some 0,
      verifyMessage = (\<lambda>key message signature. signature = rev message)\<rparr>"

definition example_idle :: downloader where
  "example_idle =
     \<lparr>version' = ''0.9'', path' = ''/dest'', replies' = [], progress_shown = False,
      progress_maximum = 0, progress_value = 0, warnings = [], finished_emitted = 0,
      deleted = False,
      fs = \<lparr>files = (\<lambda>p. None), dirs = (\<lambda>d. False), journal = []\<rparr>\<rparr>"

text \<open>A reply that has finished without error and holds the given bytes.\<close>

definition received :: "string \<Rightarrow> reply \<Rightarrow> reply" where
  "received bytes r =
     r\<lparr>isFinished := True, readAll := bytes, bytesAvailable := of_nat (length bytes)\<rparr>"

text \<open>The three downloads of \<^verbatim>\<open>Start\<close>, finished; the second argument is the
  content of \<^verbatim>\<open>blob.sha1\<close>.\<close>

definition example_downloaded :: "string \<Rightarrow> downloader" where
  "example_downloaded signature =
     (let s = Start example_env example_idle in
      s\<lparr>replies' := map2 received [''BLOB'', signature, ''LIB''] (replies' s)\<rparr>)"

text \<open>The call of \<^verbatim>\<open>ReplyFinished\<close> that the last of the three downloads
  triggers.\<close>

definition example_run :: "nat env \<Rightarrow> string \<Rightarrow> exit \<times> downloader" where
  "example_run env signature =
     ReplyFinished env (last (replies' (example_downloaded signature)))
       (example_downloaded signature)"

text \<open>A reply that has finished with a network error.\<close>

definition failed :: "string \<Rightarrow> reply \<Rightarrow> reply" where
  "failed message r = r\<lparr>error := OtherNetworkError, errorString := message, isFinished := True\<rparr>"

text \<open>The three downloads of \<^verbatim>\<open>Start\<close> while the last two are still running: the
  first has failed, or the first has finished.\<close>

definition example_broken :: downloader where
  "example_broken =
     (let s = Start example_env example_idle in
      s\<lparr>replies' := failed ''Host not found'' (hd (replies' s)) # tl (replies' s)\<rparr>)"

definition example_partial :: downloader where
  "example_partial =
     (let s = Start example_env example_idle in
      s\<lparr>replies' := received ''BLOB'' (hd (replies' s)) # tl (replies' s)\<rparr>)"

text \<open>Environments in which something goes wrong: the key does not load; the staged
  \<^verbatim>\<open>blob\<close> cannot be opened for reading; \<^verbatim>\<open>libspotify.so.8\<close> cannot be moved into
  place; the temporary directory lies below a directory whose name contains
  \<^verbatim>\<open>.sha1\<close>.\<close>

definition example_env_no_key :: "nat env" where
  "example_env_no_key = example_env\<lparr>fromPEMFile := None\<rparr>"

definition example_env_unreadable :: "nat env" where
  "example_env_unreadable = example_env\<lparr>can_read := (\<lambda>p. p \<noteq> ''/tmp/qt_temp.AbCdEf/blob'')\<rparr>"


definition example_env_sha1_dir :: "nat env" where
  "example_env_sha1_dir = example_env\<lparr>temp_directory := ''/tmp/a.sha1/qt_temp.AbCdEf''\<rparr>"

text \<open>The file system as the first loop of \<^verbatim>\<open>ReplyFinished\<close> leaves it in the
  concrete run: the three downloads are staged.\<close>

definition example_staged :: "nat env \<Rightarrow> string \<Rightarrow> filesystem" where
  "example_staged env signature =
     fst (snd (save_files env (replies' (example_downloaded signature))
                 (MakeTempDir env (fs (example_downloaded signature))) []))"

text \<open>The three downloads, finished, with \<^verbatim>\<open>bad\<close> as the content of
  \<^verbatim>\<open>blob.sha1\<close>, on a machine where a file \<^verbatim>\<open>/tmp/a/qt_temp.AbCdEf/blob\<close> exists
  beforehand and holds \<^verbatim>\<open>dab\<close>, the bytes that \<^verbatim>\<open>bad\<close> signs; and the call of
  \<^verbatim>\<open>ReplyFinished\<close> that the last download triggers there, the temporary directory
  being \<^verbatim>\<open>/tmp/a.sha1/qt_temp.AbCdEf\<close>.\<close>

definition example_planted :: downloader where
  "example_planted =
     (let s = example_downloaded ''bad'' in
      s\<lparr>fs := (fs s)\<lparr>files := (files (fs s))(''/tmp/a/qt_temp.AbCdEf/blob'' \<mapsto> (''dab'', 1604))\<rparr>\<rparr>)"

definition example_planted_run :: "exit \<times> downloader" where
  "example_planted_run =
     ReplyFinished example_env_sha1_dir (last (replies' example_planted)) example_planted"

text \<open>Two downloads that have received one gibibyte each, and two downloads of which one
  announces its length.\<close>

definition example_gibibytes :: downloader where
  "example_gibibytes =
     example_idle\<lparr>replies' :=
       [(network_get ''http://h/a'')\<lparr>bytesAvailable := 1073741824\<rparr>,
        (network_get ''http://h/b'')\<lparr>bytesAvailable := 1073741824\<rparr>]\<rparr>"

definition example_progress :: downloader where
  "example_progress =
     example_idle\<lparr>replies' :=
       [(network_get ''http://h/a'')\<lparr>bytesAvailable := 10, content_length := ''100''\<rparr>,
        (network_get ''http://h/b'')\<lparr>bytesAvailable := 5\<rparr>]\<rparr>"


section \<open>Facts about the string operations\<close>

declare remove_str.simps(2) [simp del]

lemma prefix_nth: "prefix xs ys \<Longrightarrow> i < length xs \<Longrightarrow> ys ! i = xs ! i"
  by (auto simp: prefix_def nth_append)

lemma kSignatureSuffix_length: "length kSignatureSuffix = 5"
  by (simp add: kSignatureSuffix_def)

lemma kSignatureSuffix_dot: "0 < i \<Longrightarrow> i < 5 \<Longrightarrow> kSignatureSuffix ! i \<noteq> kSignatureSuffix ! 0"
proof -
  assume "0 < i" "i < 5"
  then have "i = 1 \<or> i = 2 \<or> i = 3 \<or> i = 4" by arith
  then show ?thesis by (auto simp: kSignatureSuffix_def)
qed

lemma kSignatureSuffix_border:
  assumes "a \<noteq> []" and p: "prefix kSignatureSuffix (a @ kSignatureSuffix @ b)"
  shows "prefix kSignatureSuffix a"
proof (cases "length a < 5")
  case True
  with assms(1) have i: "0 < length a" "length a < 5" by auto
  have "(a @ kSignatureSuffix @ b) ! length a = kSignatureSuffix ! length a"
    using prefix_nth [OF p, of "length a"] i by (simp add: kSignatureSuffix_length)
  moreover have "(a @ kSignatureSuffix @ b) ! length a = kSignatureSuffix ! 0"
    by (simp add: nth_append kSignatureSuffix_length)
  ultimately show ?thesis using kSignatureSuffix_dot [OF i] by simp
next
  case False
  then have "length kSignatureSuffix \<le> length a" by (simp add: kSignatureSuffix_length)
  moreover have "prefix a (a @ kSignatureSuffix @ b)" by simp
  ultimately show ?thesis using p prefix_length_prefix by blast
qed

lemma remove_str_prefix:
  "pat \<noteq> [] \<Longrightarrow> prefix pat s \<Longrightarrow> remove_str pat s = remove_str pat (drop (length pat) s)"
  by (cases s) (simp_all add: remove_str.simps(2) del: drop_Suc_Cons)

lemma remove_str_no_prefix:
  "\<not> prefix pat (c # cs) \<Longrightarrow> remove_str pat (c # cs) = c # remove_str pat cs"
  by (simp add: remove_str.simps(2))

lemma remove_str_append_pat:
  assumes bf: "\<And>a b. a \<noteq> [] \<Longrightarrow> prefix pat (a @ pat @ b) \<Longrightarrow> prefix pat a"
    and ne: "pat \<noteq> []"
  shows "remove_str pat (a @ pat @ b) = remove_str pat a @ remove_str pat b"
  using assms
proof (induction pat a rule: remove_str.induct)
  case (1 pat)
  have "remove_str pat (pat @ b) = remove_str pat (drop (length pat) (pat @ b))"
    using 1(2) by (intro remove_str_prefix) simp_all
  then show ?case by simp
next
  case (2 pat c cs)
  show ?case
  proof (cases "prefix pat (c # cs)")
    case True
    then have len: "length pat \<le> length (c # cs)" by (rule prefix_length_le)
    from True have "prefix pat ((c # cs) @ pat @ b)" by (rule prefix_prefix)
    then have "remove_str pat ((c # cs) @ pat @ b) =
        remove_str pat (drop (length pat) ((c # cs) @ pat @ b))"
      using 2(4) by (intro remove_str_prefix)
    also have "drop (length pat) ((c # cs) @ pat @ b) = drop (length pat) (c # cs) @ pat @ b"
      using len by (simp only: drop_append diff_is_0_eq' drop_0)
    also have "remove_str pat \<dots> = remove_str pat (drop (length pat) (c # cs)) @ remove_str pat b"
      using 2(1) [OF _ 2(3) 2(4)] True 2(4) by simp
    also have "remove_str pat (drop (length pat) (c # cs)) = remove_str pat (c # cs)"
      using remove_str_prefix [OF 2(4) True] by simp
    finally show ?thesis .
  next
    case False
    then have "\<not> prefix pat ((c # cs) @ pat @ b)"
      using 2(3) [of "c # cs" b] by blast
    then have "remove_str pat ((c # cs) @ pat @ b) = c # remove_str pat (cs @ pat @ b)"
      using remove_str_no_prefix [of pat c "cs @ pat @ b"] by simp
    also have "\<dots> = c # (remove_str pat cs @ remove_str pat b)"
      using 2(2) [OF _ 2(3) 2(4)] False by simp
    also have "\<dots> = remove_str pat (c # cs) @ remove_str pat b"
      using remove_str_no_prefix [OF False] by simp
    finally show ?thesis .
  qed
qed

lemma remove_str_id: "\<not> sublist pat s \<Longrightarrow> remove_str pat s = s"
proof (induction pat s rule: remove_str.induct)
  case (1 pat)
  show ?case by simp
next
  case (2 pat c cs)
  from 2(3) have np: "\<not> prefix pat (c # cs)" and ns: "\<not> sublist pat cs"
    by (simp_all add: sublist_Cons_right)
  from ns np 2(2) have "remove_str pat cs = cs" by simp
  with np show ?case by (simp add: remove_str_no_prefix)
qed

lemma only_suffix:
  assumes "\<not> sublist kSignatureSuffix q" and "q @ kSignatureSuffix = a @ kSignatureSuffix @ b"
  shows "b = []"
proof (rule ccontr)
  assume "b \<noteq> []"
  have "length (q @ kSignatureSuffix) = length (a @ kSignatureSuffix @ b)"
    using assms(2) by (rule arg_cong)
  with \<open>b \<noteq> []\<close> have len: "length a < length q" by (cases b) auto
  have "prefix a (q @ kSignatureSuffix)" using assms(2) by simp
  moreover have "prefix q (q @ kSignatureSuffix)" by simp
  ultimately have "prefix a q" using len prefix_length_prefix [of a "q @ kSignatureSuffix" q] by simp
  then obtain x where q: "q = a @ x" by (auto simp: prefix_def)
  with len have "x \<noteq> []" by auto
  from assms(2) q have "x @ kSignatureSuffix @ [] = kSignatureSuffix @ b" by simp
  then have "prefix kSignatureSuffix (x @ kSignatureSuffix @ [])" by (simp only: prefixI)
  with \<open>x \<noteq> []\<close> have "prefix kSignatureSuffix x" by (rule kSignatureSuffix_border)
  then have "sublist kSignatureSuffix q" by (auto simp: q prefix_def sublist_def)
  with assms(1) show False by simp
qed

lemma remove_str_every_occurrence:
  "remove_str kSignatureSuffix (a @ kSignatureSuffix @ b) =
     remove_str kSignatureSuffix a @ remove_str kSignatureSuffix b"
proof -
  have "kSignatureSuffix \<noteq> []" by (simp add: kSignatureSuffix_def)
  with kSignatureSuffix_border show ?thesis by (rule remove_str_append_pat)
qed

lemma remove_str_only_suffix:
  assumes "endsWith p kSignatureSuffix" and "\<forall>a b. p = a @ kSignatureSuffix @ b \<longrightarrow> b = []"
  shows "remove_str kSignatureSuffix p = strip_suffix kSignatureSuffix p"
proof -
  have ne: "kSignatureSuffix \<noteq> []" by (simp add: kSignatureSuffix_def)
  from assms(1) obtain q where p: "p = q @ kSignatureSuffix"
    by (auto simp: endsWith_def suffix_def)
  have "\<not> sublist kSignatureSuffix q"
  proof
    assume "sublist kSignatureSuffix q"
    then obtain u w where "q = u @ kSignatureSuffix @ w" by (auto simp: sublist_def)
    with p have "p = u @ kSignatureSuffix @ (w @ kSignatureSuffix)" by simp
    with assms(2) have "w @ kSignatureSuffix = []" by blast
    with ne show False by simp
  qed
  then have "remove_str kSignatureSuffix q = q" by (rule remove_str_id)
  with remove_str_every_occurrence [of q "[]"] have "remove_str kSignatureSuffix p = q"
    by (simp add: p)
  moreover have "strip_suffix kSignatureSuffix p = q"
    by (simp add: strip_suffix_def p suffix_def)
  ultimately show ?thesis by simp
qed


section \<open>Facts about the downloader\<close>

lemma ShowError_simps [simp]:
  "fs (ShowError m s) = fs s"
  "warnings (ShowError m s) = warnings s @ [m]"
  "deleted (ShowError m s)"
  "finished_emitted (ShowError m s) = finished_emitted s"
  "path' (ShowError m s) = path' s"
  "replies' (ShowError m s) = map (\<lambda>r. abort (r\<lparr>connected := False\<rparr>)) (replies' s)"
  by (simp_all add: ShowError_def)

lemma EmitFinished_simps [simp]:
  "fs (EmitFinished s) = fs s"
  "warnings (EmitFinished s) = warnings s"
  "deleted (EmitFinished s)"
  "finished_emitted (EmitFinished s) = Suc (finished_emitted s)"
  by (simp_all add: EmitFinished_def)

lemma abort_finished [simp]: "isFinished (abort r)" "connected (abort r) = connected r"
  by (simp_all add: abort_def)

subsection \<open>Paths\<close>

lemma section_last_no_slash: "CHR ''/'' \<notin> set (section_last s)"
  by (auto simp: section_last_def dest: set_takeWhileD)

lemma filename_of_no_slash: "CHR ''/'' \<notin> set (filename_of env r)"
  by (simp add: filename_of_def section_last_no_slash)

lemma split_at_first:
  assumes "x \<notin> set xs" and "x \<notin> set xs'" and "xs @ x # ys = xs' @ x # ys'"
  shows "xs = xs' \<and> ys = ys'"
proof -
  have tw: "takeWhile (\<lambda>c. c \<noteq> x) (zs @ x # ws) = zs" if "x \<notin> set zs" for zs ws
    using that by (induction zs) auto
  have "takeWhile (\<lambda>c. c \<noteq> x) (xs @ x # ys) = takeWhile (\<lambda>c. c \<noteq> x) (xs' @ x # ys')"
    using assms(3) by simp
  then have "xs = xs'" using tw [OF assms(1)] tw [OF assms(2)] by simp
  with assms(3) show ?thesis by simp
qed

lemma path_join_inject:
  assumes "CHR ''/'' \<notin> set f" and "CHR ''/'' \<notin> set g" and "a @ ''/'' @ f = b @ ''/'' @ g"
  shows "a = b \<and> f = g"
proof -
  from assms(3) have "rev (a @ ''/'' @ f) = rev (b @ ''/'' @ g)"
    by (rule arg_cong)
  then have "rev f @ CHR ''/'' # rev a = rev g @ CHR ''/'' # rev b"
    by simp
  moreover have "CHR ''/'' \<notin> set (rev f)" "CHR ''/'' \<notin> set (rev g)"
    using assms(1,2) by simp_all
  ultimately have "rev f = rev g \<and> rev a = rev b"
    by (rule split_at_first [rotated 2])
  then show ?thesis by simp
qed

lemma prefix_below_dir:
  assumes "CHR ''/'' \<notin> set g" and "prefix (t @ ''/'') (d @ ''/'' @ g)"
  shows "prefix (t @ ''/'') (d @ ''/'')"
proof -
  from assms(2) have "prefix (t @ ''/'') ((d @ ''/'') @ g)" by simp
  then consider "prefix (t @ ''/'') (d @ ''/'')"
    | us where "t @ ''/'' = (d @ ''/'') @ us" "prefix us g"
    unfolding prefix_append by auto
  then show ?thesis
  proof cases
    case 1
    then show ?thesis .
  next
    case 2
    show ?thesis
    proof (cases "us = []")
      case True
      with 2(1) show ?thesis by simp
    next
      case False
      then have "last us = last (t @ ''/'')" using 2(1) by simp
      then have "last us = CHR ''/''" by simp
      with False have "CHR ''/'' \<in> set us" using last_in_set [of us] by simp
      with 2(2) have "CHR ''/'' \<in> set g" by (auto simp: prefix_def)
      with assms(1) show ?thesis by simp
    qed
  qed
qed

subsection \<open>The staging loop\<close>

lemma save_files_staging:
  "save_files env rs f sigs = (res, f', sigs') \<Longrightarrow>
     dirs f' = dirs f \<and>
     (\<forall>p. \<not> prefix (temp_directory env @ ''/'') p \<longrightarrow> files f' p = files f p) \<and>
     (\<exists>ops. journal f' = journal f @ ops \<and> list_all (staging_op (temp_directory env)) ops)"
proof (induction rs arbitrary: f sigs)
  case Nil
  then show ?case by simp
next
  case (Cons r rs)
  let ?path = "temp_directory env @ ''/'' @ filename_of env r"
  show ?case
  proof (cases "can_write env ?path")
    case False
    with Cons.prems show ?thesis by (simp add: Let_def)
  next
    case True
    let ?f1 = "write_file ?path (readAll r) f"
    from True Cons.prems obtain sigs1 where "save_files env rs ?f1 sigs1 = (res, f', sigs')"
      by (simp add: Let_def split: if_splits)
    from Cons.IH [OF this] obtain ops where
      d: "dirs f' = dirs ?f1" and
      fr: "\<forall>p. \<not> prefix (temp_directory env @ ''/'') p \<longrightarrow> files f' p = files ?f1 p" and
      j: "journal f' = journal ?f1 @ ops" "list_all (staging_op (temp_directory env)) ops"
      by blast
    have "dirs f' = dirs f" using d by (simp add: write_file_def)
    moreover have "\<forall>p. \<not> prefix (temp_directory env @ ''/'') p \<longrightarrow> files f' p = files f p"
    proof (intro allI impI)
      fix p assume np: "\<not> prefix (temp_directory env @ ''/'') p"
      then have "p \<noteq> ?path" by auto
      with fr np show "files f' p = files f p" by (simp add: write_file_def)
    qed
    moreover have "journal f' = journal f @ (OpWrite ?path (readAll r) # ops)"
      using j(1) by (simp add: write_file_def)
    moreover have "list_all (staging_op (temp_directory env)) (OpWrite ?path (readAll r) # ops)"
      using j(2) by simp
    ultimately show ?thesis by blast
  qed
qed

lemma save_files_journal:
  "save_files env rs f sigs = (None, f', sigs') \<Longrightarrow>
     journal f' = journal f @ map (\<lambda>r. OpWrite (source_path_of env r) (readAll r)) rs"
  by (induction rs arbitrary: f sigs)
     (auto simp: Let_def source_path_of_def write_file_def split: if_splits)

lemma save_files_untouched:
  "save_files env rs f sigs = (res, f', sigs') \<Longrightarrow> p \<notin> source_path_of env ` set rs \<Longrightarrow>
     files f' p = files f p"
  by (induction rs arbitrary: f sigs)
     (auto simp: Let_def source_path_of_def write_file_def split: if_splits)

lemma save_files_content:
  "save_files env rs f sigs = (None, f', sigs') \<Longrightarrow> r \<in> set rs \<Longrightarrow>
     (\<forall>r'\<in>set rs. source_path_of env r' = source_path_of env r \<longrightarrow> readAll r' = readAll r) \<Longrightarrow>
     files f' (source_path_of env r) = Some (readAll r, 30549)"
proof (induction rs arbitrary: f sigs r)
  case Nil
  then show ?case by simp
next
  case (Cons x rs)
  let ?f1 = "write_file (source_path_of env x) (readAll x) f"
  from Cons.prems(1) obtain sigs1 where sf: "save_files env rs ?f1 sigs1 = (None, f', sigs')"
    by (simp add: Let_def source_path_of_def split: if_splits)
  show ?case
  proof (cases "\<exists>r'\<in>set rs. source_path_of env r' = source_path_of env r")
    case True
    then obtain r' where r': "r' \<in> set rs" "source_path_of env r' = source_path_of env r" by blast
    with Cons.prems(3) have eq: "readAll r' = readAll r" by simp
    have "\<forall>r''\<in>set rs. source_path_of env r'' = source_path_of env r' \<longrightarrow> readAll r'' = readAll r'"
      using Cons.prems(3) r'(2) eq by simp
    from Cons.IH [OF sf r'(1) this] show ?thesis using r'(2) eq by simp
  next
    case False
    then have "source_path_of env r \<notin> source_path_of env ` set rs" by auto
    from save_files_untouched [OF sf this]
    have "files f' (source_path_of env r) = files ?f1 (source_path_of env r)" .
    moreover from False Cons.prems(2) have "r = x" by auto
    ultimately show ?thesis by (simp add: write_file_def)
  qed
qed

lemma save_files_verifyMessage:
  "save_files (env\<lparr>verifyMessage := v\<rparr>) rs f sigs = save_files env rs f sigs"
  by (induction rs arbitrary: f sigs) (simp_all add: Let_def filename_of_def)

lemma staged_only:
  assumes "save_files env rs (MakeTempDir env f0) [] = (res, f, sigs)"
  shows "staging_only (temp_directory env) f0 f" and "dirs f (temp_directory env)"
proof -
  from save_files_staging [OF assms] obtain ops where
    d: "dirs f = dirs (MakeTempDir env f0)" and
    fr: "\<forall>p. \<not> prefix (temp_directory env @ ''/'') p \<longrightarrow> files f p = files (MakeTempDir env f0) p" and
    j: "journal f = journal (MakeTempDir env f0) @ ops" "list_all (staging_op (temp_directory env)) ops"
    by blast
  from d show "dirs f (temp_directory env)" by (simp add: MakeTempDir_def)
  have "journal f = journal f0 @ (OpMakeTempDir (temp_directory env) # ops)"
    using j(1) by (simp add: MakeTempDir_def)
  moreover have "list_all (staging_op (temp_directory env)) (OpMakeTempDir (temp_directory env) # ops)"
    using j(2) by simp
  ultimately have "\<exists>ops. journal f = journal f0 @ ops \<and> list_all (staging_op (temp_directory env)) ops"
    by blast
  with d fr show "staging_only (temp_directory env) f0 f"
    by (simp add: staging_only_def MakeTempDir_def)
qed

lemma staged_journal_prefix:
  assumes "save_files env rs (MakeTempDir env f0) [] = (res, f, sigs)"
  shows "prefix (journal f0 @ [OpMakeTempDir (temp_directory env)]) (journal f)"
proof -
  from save_files_staging [OF assms] obtain ops where
    "journal f = journal (MakeTempDir env f0) @ ops" by blast
  then show ?thesis by (simp add: MakeTempDir_def)
qed

subsection \<open>The verification loop\<close>

lemma check_signature_verify_against:
  "check_signature env f key p = verify_against env f key (remove_str kSignatureSuffix p) p"
  by (simp add: check_signature_def verify_against_def)

subsection \<open>The install loop\<close>

lemma rename_SomeD:
  "rename env src dst f = Some f' \<Longrightarrow>
     files f src \<noteq> None \<and> files f dst = None \<and> src \<noteq> dst \<and>
     files f' = (files f)(dst := files f src, src := None) \<and> dirs f' = dirs f \<and>
     journal f' = journal f @ [OpRename src dst]"
  by (auto simp: rename_def split: if_splits)

lemma rename_Some_files:
  "rename env src dst f = Some f' \<Longrightarrow> files f' = (files f)(dst := files f src, src := None)"
  by (auto simp: rename_def split: if_splits)

lemma rename_Some_src: "rename env src dst f = Some f' \<Longrightarrow> files f src \<noteq> None"
  by (auto simp: rename_def split: if_splits)

lemma rename_Some_dst: "rename env src dst f = Some f' \<Longrightarrow> files f dst = None"
  by (auto simp: rename_def split: if_splits)

lemma rename_Some_neq: "rename env src dst f = Some f' \<Longrightarrow> src \<noteq> dst"
  by (auto simp: rename_def split: if_splits)

lemma mkpath_simps [simp]:
  "files (mkpath env p f) = files f"
  "journal (mkpath env p f) = journal f @ (if can_mkpath env p then [OpMkpath p] else [])"
  "dirs f d \<Longrightarrow> dirs (mkpath env p f) d"
  by (simp_all add: mkpath_def)

lemma move_files_Cons_signature:
  "is_signature env r \<Longrightarrow> move_files env dir (r # rs) f = move_files env dir rs f"
  by (simp add: is_signature_def Let_def)

declare move_files.simps(2) [simp del]

lemma move_files_Cons_file:
  "\<not> is_signature env r \<Longrightarrow> move_files env dir (r # rs) f =
     (case rename env (source_path_of env r) (dest_path_of env dir r) f of
        None \<Rightarrow> (Some (dest_path_of env dir r), f)
      | Some f1 \<Rightarrow> move_files env dir rs f1)"
  by (simp add: move_files.simps(2) is_signature_def Let_def source_path_of_def
      dest_path_of_def split: option.splits)

lemma move_files_dirs: "move_files env dir rs f = (res, f') \<Longrightarrow> dirs f' = dirs f"
proof (induction rs arbitrary: f)
  case Nil
  then show ?case by simp
next
  case (Cons r rs)
  show ?case
  proof (cases "is_signature env r")
    case True
    with Cons show ?thesis by (simp add: move_files_Cons_signature)
  next
    case False
    with Cons show ?thesis
      by (auto simp: move_files_Cons_file split: option.splits dest!: rename_SomeD)
  qed
qed

lemma move_files_journal:
  "move_files env dir rs f = (None, f') \<Longrightarrow>
     journal f' = journal f @
       map (\<lambda>r. OpRename (source_path_of env r) (dest_path_of env dir r))
         (filter (\<lambda>r. \<not> is_signature env r) rs)"
proof (induction rs arbitrary: f)
  case Nil
  then show ?case by simp
next
  case (Cons r rs)
  show ?case
  proof (cases "is_signature env r")
    case True
    with Cons show ?thesis by (simp add: move_files_Cons_signature)
  next
    case False
    with Cons show ?thesis
      by (auto simp: move_files_Cons_file split: option.splits dest!: rename_SomeD)
  qed
qed

lemma move_files_failed:
  "move_files env dir rs f = (Some d, f') \<Longrightarrow>
     \<exists>pre r rest. rs = pre @ r # rest \<and> \<not> is_signature env r \<and> d = dest_path_of env dir r \<and>
       move_files env dir pre f = (None, f') \<and>
       rename env (source_path_of env r) (dest_path_of env dir r) f' = None"
proof (induction rs arbitrary: f)
  case Nil
  then show ?case by simp
next
  case (Cons x rs)
  show ?case
  proof (cases "is_signature env x")
    case True
    with Cons.prems have "move_files env dir rs f = (Some d, f')"
      by (simp add: move_files_Cons_signature)
    from Cons.IH [OF this] obtain pre r rest where
      "rs = pre @ r # rest" "\<not> is_signature env r" "d = dest_path_of env dir r"
      "move_files env dir pre f = (None, f')"
      "rename env (source_path_of env r) (dest_path_of env dir r) f' = None"
      by blast
    then have "x # rs = (x # pre) @ r # rest \<and> \<not> is_signature env r \<and> d = dest_path_of env dir r \<and>
       move_files env dir (x # pre) f = (None, f') \<and>
       rename env (source_path_of env r) (dest_path_of env dir r) f' = None"
      using True by (simp add: move_files_Cons_signature)
    then show ?thesis by blast
  next
    case False
    show ?thesis
    proof (cases "rename env (source_path_of env x) (dest_path_of env dir x) f")
      case None
      with False Cons.prems have "d = dest_path_of env dir x" "f' = f"
        by (simp_all add: move_files_Cons_file)
      with None False have "x # rs = [] @ x # rs \<and> \<not> is_signature env x \<and> d = dest_path_of env dir x \<and>
         move_files env dir [] f = (None, f') \<and>
         rename env (source_path_of env x) (dest_path_of env dir x) f' = None"
        by simp
      then show ?thesis by blast
    next
      case (Some f1)
      with False Cons.prems have "move_files env dir rs f1 = (Some d, f')"
        by (simp add: move_files_Cons_file)
      from Cons.IH [OF this] obtain pre r rest where
        "rs = pre @ r # rest" "\<not> is_signature env r" "d = dest_path_of env dir r"
        "move_files env dir pre f1 = (None, f')"
        "rename env (source_path_of env r) (dest_path_of env dir r) f' = None"
        by blast
      then have "x # rs = (x # pre) @ r # rest \<and> \<not> is_signature env r \<and> d = dest_path_of env dir r \<and>
         move_files env dir (x # pre) f = (None, f') \<and>
         rename env (source_path_of env r) (dest_path_of env dir r) f' = None"
        using False Some by (simp add: move_files_Cons_file)
      then show ?thesis by blast
    qed
  qed
qed

lemma move_files_journal_prefix:
  "move_files env dir rs f = (res, f') \<Longrightarrow> prefix (journal f) (journal f')"
proof (cases res)
  case None
  assume "move_files env dir rs f = (res, f')"
  with None show ?thesis using move_files_journal [of env dir rs f f'] by simp
next
  case (Some d)
  assume "move_files env dir rs f = (res, f')"
  with Some obtain pre where "move_files env dir pre f = (None, f')"
    using move_files_failed [of env dir rs f d f'] by auto
  then show ?thesis using move_files_journal [of env dir pre f f'] by simp
qed

lemma source_neq_dest:
  "temp_directory env \<noteq> dir \<Longrightarrow> source_path_of env r \<noteq> dest_path_of env dir r'"
  using path_join_inject [OF filename_of_no_slash filename_of_no_slash,
      of "temp_directory env" env r dir env r']
  by (auto simp: source_path_of_def dest_path_of_def)

lemma same_source_same_dest:
  "source_path_of env r = source_path_of env r' \<Longrightarrow>
     dest_path_of env dir r = dest_path_of env dir r' \<and> is_signature env r = is_signature env r'"
  by (simp add: source_path_of_def dest_path_of_def is_signature_def)

lemma move_files_keeps:
  "move_files env dir rs f = (res, f') \<Longrightarrow> files f p \<noteq> None \<Longrightarrow>
     (\<forall>r\<in>set rs. \<not> is_signature env r \<longrightarrow> p \<noteq> source_path_of env r) \<Longrightarrow>
     files f' p = files f p"
proof (induction rs arbitrary: f)
  case Nil
  then show ?case by simp
next
  case (Cons x rs)
  show ?case
  proof (cases "is_signature env x")
    case True
    with Cons show ?thesis by (simp add: move_files_Cons_signature)
  next
    case False
    show ?thesis
    proof (cases "rename env (source_path_of env x) (dest_path_of env dir x) f")
      case None
      with False Cons.prems show ?thesis by (simp add: move_files_Cons_file)
    next
      case (Some f1)
      with False Cons.prems have mv: "move_files env dir rs f1 = (res, f')"
        by (simp add: move_files_Cons_file)
      have "p \<noteq> source_path_of env x" using Cons.prems(3) False by simp
      moreover have "p \<noteq> dest_path_of env dir x"
        using rename_Some_dst [OF Some] Cons.prems(2) by auto
      ultimately have "files f1 p = files f p"
        by (simp add: rename_Some_files [OF Some])
      moreover have "\<forall>r\<in>set rs. \<not> is_signature env r \<longrightarrow> p \<noteq> source_path_of env r"
        using Cons.prems(3) by simp
      ultimately show ?thesis using Cons.IH [OF mv] Cons.prems(2) by simp
    qed
  qed
qed

lemma move_files_keeps_none:
  "move_files env dir rs f = (res, f') \<Longrightarrow> files f p = None \<Longrightarrow>
     (\<forall>r\<in>set rs. \<not> is_signature env r \<longrightarrow> p \<noteq> dest_path_of env dir r) \<Longrightarrow>
     files f' p = None"
proof (induction rs arbitrary: f)
  case Nil
  then show ?case by simp
next
  case (Cons x rs)
  show ?case
  proof (cases "is_signature env x")
    case True
    with Cons show ?thesis by (simp add: move_files_Cons_signature)
  next
    case False
    show ?thesis
    proof (cases "rename env (source_path_of env x) (dest_path_of env dir x) f")
      case None
      with False Cons.prems show ?thesis by (simp add: move_files_Cons_file)
    next
      case (Some f1)
      with False Cons.prems have mv: "move_files env dir rs f1 = (res, f')"
        by (simp add: move_files_Cons_file)
      have "p \<noteq> dest_path_of env dir x" using Cons.prems(3) False by simp
      then have "files f1 p = None"
        using Cons.prems(2) by (simp add: rename_Some_files [OF Some])
      moreover have "\<forall>r\<in>set rs. \<not> is_signature env r \<longrightarrow> p \<noteq> dest_path_of env dir r"
        using Cons.prems(3) by simp
      ultimately show ?thesis using Cons.IH [OF mv] by simp
    qed
  qed
qed

lemma move_files_frame:
  "move_files env dir rs f = (res, f') \<Longrightarrow>
     (\<forall>r\<in>set rs. \<not> is_signature env r \<longrightarrow>
        p \<noteq> source_path_of env r \<and> p \<noteq> dest_path_of env dir r) \<Longrightarrow>
     files f' p = files f p"
proof (cases "files f p")
  case None
  assume "move_files env dir rs f = (res, f')"
    and "\<forall>r\<in>set rs. \<not> is_signature env r \<longrightarrow>
        p \<noteq> source_path_of env r \<and> p \<noteq> dest_path_of env dir r"
  then show ?thesis using None move_files_keeps_none [of env dir rs f res f' p] by simp
next
  case (Some bytes)
  assume "move_files env dir rs f = (res, f')"
    and "\<forall>r\<in>set rs. \<not> is_signature env r \<longrightarrow>
        p \<noteq> source_path_of env r \<and> p \<noteq> dest_path_of env dir r"
  then show ?thesis using Some move_files_keeps [of env dir rs f res f' p] by simp
qed

lemma move_files_moved:
  "move_files env dir rs f = (None, f') \<Longrightarrow> r \<in> set rs \<Longrightarrow> \<not> is_signature env r \<Longrightarrow>
     files f' (dest_path_of env dir r) = files f (source_path_of env r) \<and>
     files f (source_path_of env r) \<noteq> None \<and>
     files f' (source_path_of env r) = None"
proof (induction rs arbitrary: f)
  case Nil
  then show ?case by simp
next
  case (Cons x rs)
  show ?case
  proof (cases "is_signature env x")
    case True
    with Cons.prems have "move_files env dir rs f = (None, f')" "r \<in> set rs"
      by (auto simp: move_files_Cons_signature)
    with Cons.IH Cons.prems(3) show ?thesis by blast
  next
    case False
    with Cons.prems(1) obtain f1 where
      rn: "rename env (source_path_of env x) (dest_path_of env dir x) f = Some f1" and
      mv: "move_files env dir rs f1 = (None, f')"
      by (auto simp: move_files_Cons_file split: option.splits)
    note src = rename_Some_src [OF rn] and sd = rename_Some_neq [OF rn]
      and f1 = rename_Some_files [OF rn]
    from sd have ne: "temp_directory env \<noteq> dir"
      by (auto simp: source_path_of_def dest_path_of_def)
    show ?thesis
    proof (cases "source_path_of env r = source_path_of env x")
      case True
      then have d: "dest_path_of env dir r = dest_path_of env dir x"
        using same_source_same_dest [of env r x dir] by simp
      have at_dest: "files f1 (dest_path_of env dir x) = files f (source_path_of env x)"
        using f1 sd by simp
      have "\<forall>r'\<in>set rs. \<not> is_signature env r' \<longrightarrow>
          dest_path_of env dir x \<noteq> source_path_of env r'"
      proof (intro ballI impI)
        fix r'
        show "dest_path_of env dir x \<noteq> source_path_of env r'"
          using source_neq_dest [OF ne, of r' x] by simp
      qed
      with move_files_keeps [OF mv, of "dest_path_of env dir x"] at_dest src
      have 1: "files f' (dest_path_of env dir x) = files f (source_path_of env x)"
        by simp
      have at_src: "files f1 (source_path_of env x) = None" using f1 by simp
      have "\<forall>r'\<in>set rs. \<not> is_signature env r' \<longrightarrow>
          source_path_of env x \<noteq> dest_path_of env dir r'"
      proof (intro ballI impI)
        fix r'
        show "source_path_of env x \<noteq> dest_path_of env dir r'"
          using source_neq_dest [OF ne, of x r'] by simp
      qed
      with move_files_keeps_none [OF mv, of "source_path_of env x"] at_src
      have 2: "files f' (source_path_of env x) = None"
        by simp
      from 1 2 src show ?thesis by (simp add: True d)
    next
      case neq: False
      then have "r \<noteq> x" by auto
      with Cons.prems(2) have "r \<in> set rs" by simp
      from Cons.IH [OF mv this Cons.prems(3)] have
        ih: "files f' (dest_path_of env dir r) = files f1 (source_path_of env r)"
            "files f1 (source_path_of env r) \<noteq> None"
            "files f' (source_path_of env r) = None"
        by simp_all
      have "files f1 (source_path_of env r) = files f (source_path_of env r)"
        using f1 neq source_neq_dest [OF ne, of r x] by simp
      with ih show ?thesis by simp
    qed
  qed
qed

lemma move_files_distinct:
  "move_files env dir rs f = (None, f') \<Longrightarrow>
     distinct (map (source_path_of env) (filter (\<lambda>r. \<not> is_signature env r) rs))"
proof (induction rs arbitrary: f)
  case Nil
  then show ?case by simp
next
  case (Cons x rs)
  show ?case
  proof (cases "is_signature env x")
    case True
    with Cons show ?thesis by (simp add: move_files_Cons_signature)
  next
    case False
    with Cons.prems(1) obtain f1 where
      rn: "rename env (source_path_of env x) (dest_path_of env dir x) f = Some f1" and
      mv: "move_files env dir rs f1 = (None, f')"
      by (auto simp: move_files_Cons_file split: option.splits)
    have "source_path_of env x \<noteq> source_path_of env r"
      if "r \<in> set rs" "\<not> is_signature env r" for r
    proof
      assume "source_path_of env x = source_path_of env r"
      moreover have "files f1 (source_path_of env x) = None"
        by (simp add: rename_Some_files [OF rn])
      ultimately show False using move_files_moved [OF mv that] by simp
    qed
    then have "source_path_of env x \<notin>
        set (map (source_path_of env) (filter (\<lambda>r. \<not> is_signature env r) rs))"
      by auto
    with Cons.IH [OF mv] False show ?thesis by simp
  qed
qed

subsection \<open>The exits of \<open>ReplyFinished\<close>\<close>

lemma ReplyFinished_cases [case_names NetworkFailed NotAllFinished WriteOpenFailed
    KeyLoadFailed VerifyOpenFailed InvalidSignature MoveFailed Installed]:
  obtains
    "error sender \<noteq> NoError"
    "ReplyFinished env sender s = (NetworkFailed, ShowError (errorString sender) s)"
  | "error sender = NoError" "list_ex (\<lambda>r. \<not> isFinished r) (replies' s)"
    "ReplyFinished env sender s = (NotAllFinished, s)"
  | path f sigs where
    "error sender = NoError" "list_all isFinished (replies' s)"
    "save_files env (replies' s) (MakeTempDir env (fs s)) [] = (Some path, f, sigs)"
    "ReplyFinished env sender s =
       (WriteOpenFailed, ShowError (''Failed to open file for writing: '' @ path) (s\<lparr>fs := f\<rparr>))"
  | f sigs where
    "error sender = NoError" "list_all isFinished (replies' s)"
    "save_files env (replies' s) (MakeTempDir env (fs s)) [] = (None, f, sigs)"
    "fromPEMFile env = None"
    "ReplyFinished env sender s =
       (KeyLoadFailed, ShowError ''Failed to load Spotify public key'' (s\<lparr>fs := f\<rparr>))"
  | f sigs key where
    "error sender = NoError" "list_all isFinished (replies' s)"
    "save_files env (replies' s) (MakeTempDir env (fs s)) [] = (None, f, sigs)"
    "fromPEMFile env = Some key"
    "verify_signatures env f key sigs = OpenFailed"
    "ReplyFinished env sender s = (VerifyOpenFailed, s\<lparr>fs := f\<rparr>)"
  | f sigs key filename where
    "error sender = NoError" "list_all isFinished (replies' s)"
    "save_files env (replies' s) (MakeTempDir env (fs s)) [] = (None, f, sigs)"
    "fromPEMFile env = Some key"
    "verify_signatures env f key sigs = Invalid filename"
    "ReplyFinished env sender s =
       (InvalidSignature, ShowError (''Invalid signature: '' @ filename) (s\<lparr>fs := f\<rparr>))"
  | f sigs key dest f' where
    "error sender = NoError" "list_all isFinished (replies' s)"
    "save_files env (replies' s) (MakeTempDir env (fs s)) [] = (None, f, sigs)"
    "fromPEMFile env = Some key"
    "verify_signatures env f key sigs = VerificationOK"
    "move_files env (path' s) (replies' s) (mkpath env (path' s) f) = (Some dest, f')"
    "ReplyFinished env sender s =
       (MoveFailed, ShowError (''Writing file failed: '' @ dest) (s\<lparr>fs := f'\<rparr>))"
  | f sigs key f' where
    "error sender = NoError" "list_all isFinished (replies' s)"
    "save_files env (replies' s) (MakeTempDir env (fs s)) [] = (None, f, sigs)"
    "fromPEMFile env = Some key"
    "verify_signatures env f key sigs = VerificationOK"
    "move_files env (path' s) (replies' s) (mkpath env (path' s) f) = (None, f')"
    "ReplyFinished env sender s =
       (Installed, EmitFinished (s\<lparr>fs := RemoveRecursive (temp_directory env) f'\<rparr>))"
proof (cases "error sender \<noteq> NoError")
  case True
  then show ?thesis using that(1) by (simp add: ReplyFinished_def)
next
  case noerr: False
  show ?thesis
  proof (cases "list_ex (\<lambda>r. \<not> isFinished r) (replies' s)")
    case True
    with noerr show ?thesis using that(2) by (simp add: ReplyFinished_def)
  next
    case False
    then have fin: "list_all isFinished (replies' s)"
      by (simp add: list_all_iff list_ex_iff)
    obtain res f sigs where
      sf: "save_files env (replies' s) (MakeTempDir env (fs s)) [] = (res, f, sigs)"
      by (cases "save_files env (replies' s) (MakeTempDir env (fs s)) []") auto
    show ?thesis
    proof (cases res)
      case (Some path)
      with noerr False sf fin show ?thesis using that(3) by (simp add: ReplyFinished_def)
    next
      case None
      note saved = sf [unfolded None]
      show ?thesis
      proof (cases "fromPEMFile env")
        case None
        with noerr False saved fin show ?thesis using that(4) by (simp add: ReplyFinished_def)
      next
        case (Some key)
        show ?thesis
        proof (cases "verify_signatures env f key sigs")
          case OpenFailed
          with noerr False saved fin Some show ?thesis
            using that(5) by (simp add: ReplyFinished_def)
        next
          case (Invalid filename)
          with noerr False saved fin Some show ?thesis
            using that(6) by (simp add: ReplyFinished_def)
        next
          case VerificationOK
          obtain mres f' where
            mv: "move_files env (path' s) (replies' s) (mkpath env (path' s) f) = (mres, f')"
            by (cases "move_files env (path' s) (replies' s) (mkpath env (path' s) f)") auto
          show ?thesis
          proof (cases mres)
            case None
            with noerr False saved fin Some VerificationOK mv show ?thesis
              using that(8) by (simp add: ReplyFinished_def)
          next
            case (Some dest)
            with noerr False saved fin \<open>fromPEMFile env = Some key\<close> VerificationOK mv
            show ?thesis
              using that(7) by (simp add: ReplyFinished_def)
          qed
        qed
      qed
    qed
  qed
qed

lemma staging_only_refl: "staging_only tmp f f"
  unfolding staging_only_def by (simp add: exI [of _ "[]"])

lemma no_install_staging_only:
  assumes "fst (ReplyFinished env sender s) \<noteq> MoveFailed"
    and "fst (ReplyFinished env sender s) \<noteq> Installed"
  shows "staging_only (temp_directory env) (fs s) (fs (snd (ReplyFinished env sender s)))"
proof (cases env sender s rule: ReplyFinished_cases)
  case NetworkFailed
  then show ?thesis by (simp add: staging_only_refl)
next
  case NotAllFinished
  then show ?thesis by (simp add: staging_only_refl)
next
  case (WriteOpenFailed path f sigs)
  then show ?thesis using staged_only(1) [OF WriteOpenFailed(3)] by simp
next
  case (KeyLoadFailed f sigs)
  then show ?thesis using staged_only(1) [OF KeyLoadFailed(3)] by simp
next
  case (VerifyOpenFailed f sigs key)
  then show ?thesis using staged_only(1) [OF VerifyOpenFailed(3)] by simp
next
  case (InvalidSignature f sigs key filename)
  then show ?thesis using staged_only(1) [OF InvalidSignature(3)] by simp
next
  case (MoveFailed f sigs key dest f')
  with assms show ?thesis by simp
next
  case (Installed f sigs key f')
  with assms show ?thesis by simp
qed

lemma staging_begins:
  assumes "error sender = NoError" and "list_all isFinished (replies' s)"
  shows "prefix (journal (fs s) @ [OpMakeTempDir (temp_directory env)])
           (journal (fs (snd (ReplyFinished env sender s))))"
proof -
  from assms(2) have nf: "\<not> list_ex (\<lambda>r. \<not> isFinished r) (replies' s)"
    by (simp add: list_all_iff list_ex_iff)
  show ?thesis
  proof (cases env sender s rule: ReplyFinished_cases)
    case NetworkFailed
    with assms show ?thesis by simp
  next
    case NotAllFinished
    with nf show ?thesis by simp
  next
    case (WriteOpenFailed path f sigs)
    then show ?thesis using staged_journal_prefix [OF WriteOpenFailed(3)] by simp
  next
    case (KeyLoadFailed f sigs)
    then show ?thesis using staged_journal_prefix [OF KeyLoadFailed(3)] by simp
  next
    case (VerifyOpenFailed f sigs key)
    then show ?thesis using staged_journal_prefix [OF VerifyOpenFailed(3)] by simp
  next
    case (InvalidSignature f sigs key filename)
    then show ?thesis using staged_journal_prefix [OF InvalidSignature(3)] by simp
  next
    case (MoveFailed f sigs key dest f')
    have "prefix (journal f) (journal (mkpath env (path' s) f))" by simp
    with staged_journal_prefix [OF MoveFailed(3)] move_files_journal_prefix [OF MoveFailed(6)]
    have "prefix (journal (fs s) @ [OpMakeTempDir (temp_directory env)]) (journal f')"
      using prefix_order.trans by blast
    with MoveFailed show ?thesis by simp
  next
    case (Installed f sigs key f')
    have "prefix (journal f) (journal (mkpath env (path' s) f))" by simp
    with staged_journal_prefix [OF Installed(3)] move_files_journal_prefix [OF Installed(6)]
    have "prefix (journal (fs s) @ [OpMakeTempDir (temp_directory env)]) (journal f')"
      using prefix_order.trans by blast
    moreover have "prefix (journal f') (journal (RemoveRecursive (temp_directory env) f'))"
      by (simp add: RemoveRecursive_def)
    ultimately have "prefix (journal (fs s) @ [OpMakeTempDir (temp_directory env)])
        (journal (RemoveRecursive (temp_directory env) f'))"
      using prefix_order.trans by blast
    with Installed show ?thesis by simp
  qed
qed

lemma reports_per_exit:
  "reports (snd (ReplyFinished env sender s)) =
     reports s +
       (if fst (ReplyFinished env sender s) = NotAllFinished
           \<or> fst (ReplyFinished env sender s) = VerifyOpenFailed then 0 else 1)"
  by (cases env sender s rule: ReplyFinished_cases) (simp_all add: reports_def)

lemma silent_exit_not_terminal:
  "fst (ReplyFinished env sender s) = VerifyOpenFailed \<Longrightarrow>
     warnings (snd (ReplyFinished env sender s)) = warnings s \<and>
     finished_emitted (snd (ReplyFinished env sender s)) = finished_emitted s \<and>
     deleted (snd (ReplyFinished env sender s)) = deleted s \<and>
     replies' (snd (ReplyFinished env sender s)) = replies' s"
  by (cases env sender s rule: ReplyFinished_cases) simp_all

lemma failure_leaves_staging_directory:
  assumes "fst (ReplyFinished env sender s) \<in>
     {WriteOpenFailed, KeyLoadFailed, VerifyOpenFailed, InvalidSignature, MoveFailed}"
  shows "dirs (fs (snd (ReplyFinished env sender s))) (temp_directory env)"
proof (cases env sender s rule: ReplyFinished_cases)
  case (WriteOpenFailed path f sigs)
  then show ?thesis using staged_only(2) [OF WriteOpenFailed(3)] by simp
next
  case (KeyLoadFailed f sigs)
  then show ?thesis using staged_only(2) [OF KeyLoadFailed(3)] by simp
next
  case (VerifyOpenFailed f sigs key)
  then show ?thesis using staged_only(2) [OF VerifyOpenFailed(3)] by simp
next
  case (InvalidSignature f sigs key filename)
  then show ?thesis using staged_only(2) [OF InvalidSignature(3)] by simp
next
  case (MoveFailed f sigs key dest f')
  then show ?thesis
    using staged_only(2) [OF MoveFailed(3)] move_files_dirs [OF MoveFailed(6)] by simp
qed (use assms in simp_all)


section \<open>Starting the downloads\<close>

text \<open>
  C6. \<^verbatim>\<open>Start\<close> requests exactly three files, in the order blob, blob.sha1,
  libspotify.so.8. Each URL is the base URL followed by the version, a slash and the
  file name, whatever the version string is, and the name of the signature file is the
  name of the artifact followed by the signature suffix. \<^const>\<open>Start\<close> is a total
  function: there is no input on which it fails.
\<close>

theorem Start_resolves_three_files:
  "map url (replies' (Start env s)) =
     [kBlobDownloadUrl env @ version' s @ ''/'' @ ''blob'',
      kBlobDownloadUrl env @ version' s @ ''/'' @ ''blob.sha1'',
      kBlobDownloadUrl env @ version' s @ ''/'' @ ''libspotify.so.8'']
   \<and> ''blob.sha1'' = ''blob'' @ kSignatureSuffix"
  by (simp add: Start_def network_get_def kSignatureSuffix_def)


section \<open>The barrier\<close>

text \<open>
  C1. A reply that finishes with a network error ends the attempt at once, whatever the
  state of the other replies: the error is reported, every reply is disconnected and
  aborted, the downloader is released and the file system is as before. A reply that
  finishes without error while another is still running changes nothing. So a call
  that changes the file system in any way was made with every reply finished; and when
  every reply has finished, and the sender without error, the first change made is the
  creation of the staging directory.
\<close>

theorem ReplyFinished_barrier:
  "(error sender \<noteq> NoError \<longrightarrow>
      (\<exists>s'. ReplyFinished env sender s = (NetworkFailed, s')
         \<and> warnings s' = warnings s @ [errorString sender]
         \<and> finished_emitted s' = finished_emitted s
         \<and> deleted s'
         \<and> replies' s' = map (\<lambda>r. abort (r\<lparr>connected := False\<rparr>)) (replies' s)
         \<and> list_all (\<lambda>r. isFinished r \<and> \<not> connected r) (replies' s')
         \<and> fs s' = fs s))
   \<and> (error sender = NoError \<and> list_ex (\<lambda>r. \<not> isFinished r) (replies' s) \<longrightarrow>
         ReplyFinished env sender s = (NotAllFinished, s))
   \<and> (fs (snd (ReplyFinished env sender s)) \<noteq> fs s \<longrightarrow>
         error sender = NoError \<and> list_all isFinished (replies' s))
   \<and> (error sender = NoError \<and> list_all isFinished (replies' s) \<longrightarrow>
         prefix (journal (fs s) @ [OpMakeTempDir (temp_directory env)])
           (journal (fs (snd (ReplyFinished env sender s)))))"
proof (intro conjI impI)
  assume "error sender \<noteq> NoError"
  then show "\<exists>s'. ReplyFinished env sender s = (NetworkFailed, s')
         \<and> warnings s' = warnings s @ [errorString sender]
         \<and> finished_emitted s' = finished_emitted s
         \<and> deleted s'
         \<and> replies' s' = map (\<lambda>r. abort (r\<lparr>connected := False\<rparr>)) (replies' s)
         \<and> list_all (\<lambda>r. isFinished r \<and> \<not> connected r) (replies' s')
         \<and> fs s' = fs s"
    by (simp add: ReplyFinished_def list_all_iff)
next
  assume "error sender = NoError \<and> list_ex (\<lambda>r. \<not> isFinished r) (replies' s)"
  then show "ReplyFinished env sender s = (NotAllFinished, s)"
    by (simp add: ReplyFinished_def)
next
  assume a: "fs (snd (ReplyFinished env sender s)) \<noteq> fs s"
  then show "error sender = NoError"
    by (cases env sender s rule: ReplyFinished_cases) simp_all
  from a show "list_all isFinished (replies' s)"
    by (cases env sender s rule: ReplyFinished_cases) simp_all
next
  assume "error sender = NoError \<and> list_all isFinished (replies' s)"
  then show "prefix (journal (fs s) @ [OpMakeTempDir (temp_directory env)])
           (journal (fs (snd (ReplyFinished env sender s))))"
    by (simp add: staging_begins)
qed

text \<open>
  C1, in the concrete run: the first download fails while the others are running; the
  first download finishes while the others are running; the last download finishes.
\<close>

theorem ReplyFinished_barrier_witness:
  "error (hd (replies' example_broken)) \<noteq> NoError
   \<and> list_ex (\<lambda>r. \<not> isFinished r) (replies' example_broken)
   \<and> fst (ReplyFinished example_env (hd (replies' example_broken)) example_broken) = NetworkFailed
   \<and> warnings (snd (ReplyFinished example_env (hd (replies' example_broken)) example_broken))
       = [''Host not found'']
   \<and> list_all (\<lambda>r. isFinished r \<and> \<not> connected r)
       (replies' (snd (ReplyFinished example_env (hd (replies' example_broken)) example_broken)))
   \<and> error (hd (replies' example_partial)) = NoError
   \<and> list_ex (\<lambda>r. \<not> isFinished r) (replies' example_partial)
   \<and> ReplyFinished example_env (hd (replies' example_partial)) example_partial
       = (NotAllFinished, example_partial)
   \<and> fs (snd (example_run example_env ''BOLB'')) \<noteq> fs (example_downloaded ''BOLB'')
   \<and> list_all isFinished (replies' (example_downloaded ''BOLB''))
   \<and> prefix [OpMakeTempDir ''/tmp/qt_temp.AbCdEf'']
       (journal (fs (snd (example_run example_env ''BOLB''))))"
proof -
  have b: "error (hd (replies' example_broken)) \<noteq> NoError"
    "list_ex (\<lambda>r. \<not> isFinished r) (replies' example_broken)"
    "warnings example_broken @ [errorString (hd (replies' example_broken))] = [''Host not found'']"
    by code_simp+
  from ReplyFinished_barrier [of "hd (replies' example_broken)" example_env example_broken,
      THEN conjunct1, THEN mp, OF b(1)]
  have 1: "fst (ReplyFinished example_env (hd (replies' example_broken)) example_broken) = NetworkFailed"
    "warnings (snd (ReplyFinished example_env (hd (replies' example_broken)) example_broken))
       = [''Host not found'']"
    "list_all (\<lambda>r. isFinished r \<and> \<not> connected r)
       (replies' (snd (ReplyFinished example_env (hd (replies' example_broken)) example_broken)))"
    using b(3) by auto
  have p: "error (hd (replies' example_partial)) = NoError"
    "list_ex (\<lambda>r. \<not> isFinished r) (replies' example_partial)"
    by code_simp+
  from ReplyFinished_barrier [of "hd (replies' example_partial)" example_env example_partial,
      THEN conjunct2, THEN conjunct1, THEN mp, OF conjI, OF p]
  have 2: "ReplyFinished example_env (hd (replies' example_partial)) example_partial
       = (NotAllFinished, example_partial)" .
  have "journal (fs (snd (example_run example_env ''BOLB''))) \<noteq> journal (fs (example_downloaded ''BOLB''))"
    by code_simp
  then have d: "fs (snd (example_run example_env ''BOLB'')) \<noteq> fs (example_downloaded ''BOLB'')"
    by auto
  from ReplyFinished_barrier [of "last (replies' (example_downloaded ''BOLB''))" example_env
      "example_downloaded ''BOLB''", THEN conjunct2, THEN conjunct2, THEN conjunct1, THEN mp,
      OF d [unfolded example_run_def]]
  have 3: "error (last (replies' (example_downloaded ''BOLB''))) = NoError
      \<and> list_all isFinished (replies' (example_downloaded ''BOLB''))" .
  have e: "journal (fs (example_downloaded ''BOLB'')) @ [OpMakeTempDir (temp_directory example_env)]
      = [OpMakeTempDir ''/tmp/qt_temp.AbCdEf'']"
    by code_simp
  from ReplyFinished_barrier [of "last (replies' (example_downloaded ''BOLB''))" example_env
      "example_downloaded ''BOLB''", THEN conjunct2, THEN conjunct2, THEN conjunct2, THEN mp, OF 3]
  have 4: "prefix [OpMakeTempDir ''/tmp/qt_temp.AbCdEf'']
       (journal (fs (snd (example_run example_env ''BOLB''))))"
    unfolding e example_run_def .
  from b(1,2) 1 p 2 d 3 4 show ?thesis by (intro conjI) simp_all
qed


section \<open>Installation\<close>

text \<open>
  C7. When \<open>ReplyFinished\<close> ends with the installation done, the changes it made to
  the file system are, in this order: the staging directory, one write below it for every
  reply, the destination directory, one \<^verbatim>\<open>QFile::rename\<close> from the staging directory
  to \<^verbatim>\<open>path_ + "/" + filename\<close> for every reply whose file name does not end in the
  signature suffix, and the removal of the staging directory. No other rename and no write
  outside the staging directory happens, so no signature file is moved or copied. On the
  files themselves: if the destination does not lie inside the staging directory, every
  artifact's bytes are at its destination path, with the permissions 0x7755, and gone
  from its staging path, and the destination path of every signature file holds what it
  held before.
\<close>

theorem Installed_moves_artifacts_only:
  assumes "ReplyFinished env sender s = (Installed, s')"
  shows "journal (fs s') =
           journal (fs s) @ [OpMakeTempDir (temp_directory env)]
           @ map (\<lambda>r. OpWrite (source_path_of env r) (readAll r)) (replies' s)
           @ (if can_mkpath env (path' s) then [OpMkpath (path' s)] else [])
           @ map (\<lambda>r. OpRename (source_path_of env r) (dest_path_of env (path' s) r))
               (filter (\<lambda>r. \<not> is_signature env r) (replies' s))
           @ [OpRemoveRecursive (temp_directory env)]
         \<and> (\<forall>r\<in>set (replies' s). \<not> is_signature env r \<longrightarrow>
               files (fs s') (source_path_of env r) = None \<and>
               (\<not> prefix (temp_directory env @ ''/'') (path' s @ ''/'') \<longrightarrow>
                  files (fs s') (dest_path_of env (path' s) r) = Some (readAll r, 30549)))
         \<and> (\<forall>r\<in>set (replies' s). is_signature env r \<longrightarrow>
               \<not> prefix (temp_directory env @ ''/'') (path' s @ ''/'') \<longrightarrow>
               files (fs s') (dest_path_of env (path' s) r) = files (fs s) (dest_path_of env (path' s) r))"
proof (cases env sender s rule: ReplyFinished_cases)
  case (Installed f sigs key f')
  let ?tmp = "temp_directory env" and ?dir = "path' s"
  from Installed(7) assms have s': "s' = EmitFinished (s\<lparr>fs := RemoveRecursive ?tmp f'\<rparr>)"
    by simp
  note saved = Installed(3) and moved = Installed(6)
  have J: "journal (fs s') =
           journal (fs s) @ [OpMakeTempDir ?tmp]
           @ map (\<lambda>r. OpWrite (source_path_of env r) (readAll r)) (replies' s)
           @ (if can_mkpath env ?dir then [OpMkpath ?dir] else [])
           @ map (\<lambda>r. OpRename (source_path_of env r) (dest_path_of env ?dir r))
               (filter (\<lambda>r. \<not> is_signature env r) (replies' s))
           @ [OpRemoveRecursive ?tmp]"
    using save_files_journal [OF saved] move_files_journal [OF moved]
    by (simp add: s' RemoveRecursive_def MakeTempDir_def)
  have final: "files (fs s') p = (if prefix (?tmp @ ''/'') p then None else files f' p)" for p
    by (simp add: s' RemoveRecursive_def)
  have below: "\<not> prefix (?tmp @ ''/'') (dest_path_of env ?dir r)"
    if "\<not> prefix (?tmp @ ''/'') (?dir @ ''/'')" for r
    using that prefix_below_dir [OF filename_of_no_slash, of ?tmp ?dir env r]
    by (auto simp: dest_path_of_def)
  have A: "files (fs s') (source_path_of env r) = None \<and>
       (\<not> prefix (?tmp @ ''/'') (?dir @ ''/'') \<longrightarrow>
          files (fs s') (dest_path_of env ?dir r) = Some (readAll r, 30549))"
    if r: "r \<in> set (replies' s)" "\<not> is_signature env r" for r
  proof
    show "files (fs s') (source_path_of env r) = None"
      by (simp add: final source_path_of_def)
    show "\<not> prefix (?tmp @ ''/'') (?dir @ ''/'') \<longrightarrow>
          files (fs s') (dest_path_of env ?dir r) = Some (readAll r, 30549)"
    proof
      assume out: "\<not> prefix (?tmp @ ''/'') (?dir @ ''/'')"
      have "\<forall>r'\<in>set (replies' s). source_path_of env r' = source_path_of env r \<longrightarrow>
          readAll r' = readAll r"
      proof (intro ballI impI)
        fix r' assume r': "r' \<in> set (replies' s)" "source_path_of env r' = source_path_of env r"
        then have "\<not> is_signature env r'"
          using same_source_same_dest [of env r' r ?dir] r(2) by simp
        with r r' have "r' \<in> set (filter (\<lambda>r. \<not> is_signature env r) (replies' s))"
          "r \<in> set (filter (\<lambda>r. \<not> is_signature env r) (replies' s))"
          by simp_all
        moreover have "inj_on (source_path_of env)
            (set (filter (\<lambda>r. \<not> is_signature env r) (replies' s)))"
          using move_files_distinct [OF moved] by (simp add: distinct_map)
        ultimately have "r' = r" using r'(2) by (auto dest: inj_onD)
        then show "readAll r' = readAll r" by simp
      qed
      from save_files_content [OF saved r(1) this]
      have "files f (source_path_of env r) = Some (readAll r, 30549)" .
      moreover from move_files_moved [OF moved r]
      have "files f' (dest_path_of env ?dir r) = files (mkpath env ?dir f) (source_path_of env r)"
        by simp
      ultimately show "files (fs s') (dest_path_of env ?dir r) = Some (readAll r, 30549)"
        using below [OF out, of r] by (simp add: final)
    qed
  qed
  have B: "files (fs s') (dest_path_of env ?dir r) = files (fs s) (dest_path_of env ?dir r)"
    if r: "r \<in> set (replies' s)" "is_signature env r"
      and out: "\<not> prefix (?tmp @ ''/'') (?dir @ ''/'')" for r
  proof -
    from out have ne: "?tmp \<noteq> ?dir" by auto
    have "\<forall>r'\<in>set (replies' s). \<not> is_signature env r' \<longrightarrow>
        dest_path_of env ?dir r \<noteq> source_path_of env r' \<and>
        dest_path_of env ?dir r \<noteq> dest_path_of env ?dir r'"
    proof (intro ballI impI conjI)
      fix r' assume "\<not> is_signature env r'"
      show "dest_path_of env ?dir r \<noteq> source_path_of env r'"
        using source_neq_dest [OF ne, of r' r] by simp
      show "dest_path_of env ?dir r \<noteq> dest_path_of env ?dir r'"
      proof
        assume "dest_path_of env ?dir r = dest_path_of env ?dir r'"
        then have "filename_of env r = filename_of env r'"
          by (simp add: dest_path_of_def)
        with r(2) \<open>\<not> is_signature env r'\<close> show False by (simp add: is_signature_def)
      qed
    qed
    from move_files_frame [OF moved this]
    have "files f' (dest_path_of env ?dir r) = files f (dest_path_of env ?dir r)" by simp
    moreover have "files f (dest_path_of env ?dir r) = files (fs s) (dest_path_of env ?dir r)"
      using staged_only(1) [OF saved] below [OF out, of r] by (simp add: staging_only_def)
    ultimately show ?thesis using below [OF out, of r] by (simp add: final)
  qed
  from J A B show ?thesis by blast
qed (use assms in simp_all)

text \<open>
  C7, in the concrete run with a valid signature: \<^verbatim>\<open>blob\<close> and
  \<^verbatim>\<open>libspotify.so.8\<close> are moved, \<^verbatim>\<open>blob.sha1\<close> is not.
\<close>

theorem Installed_moves_artifacts_only_witness:
  "example_run example_env ''BOLB'' = (Installed, snd (example_run example_env ''BOLB''))
   \<and> \<not> prefix (temp_directory example_env @ ''/'') (path' (example_downloaded ''BOLB'') @ ''/'')
   \<and> journal (fs (snd (example_run example_env ''BOLB''))) =
       [OpMakeTempDir ''/tmp/qt_temp.AbCdEf'',
        OpWrite ''/tmp/qt_temp.AbCdEf/blob'' ''BLOB'',
        OpWrite ''/tmp/qt_temp.AbCdEf/blob.sha1'' ''BOLB'',
        OpWrite ''/tmp/qt_temp.AbCdEf/libspotify.so.8'' ''LIB'',
        OpMkpath ''/dest'',
        OpRename ''/tmp/qt_temp.AbCdEf/blob'' ''/dest/blob'',
        OpRename ''/tmp/qt_temp.AbCdEf/libspotify.so.8'' ''/dest/libspotify.so.8'',
        OpRemoveRecursive ''/tmp/qt_temp.AbCdEf'']
   \<and> files (fs (snd (example_run example_env ''BOLB''))) ''/dest/blob'' = Some (''BLOB'', 30549)
   \<and> files (fs (snd (example_run example_env ''BOLB''))) ''/dest/libspotify.so.8'' = Some (''LIB'', 30549)
   \<and> files (fs (snd (example_run example_env ''BOLB''))) ''/dest/blob.sha1'' = None"
proof -
  let ?s = "example_downloaded ''BOLB''"
  let ?R = "example_run example_env ''BOLB''"
  have "fst ?R = Installed" by code_simp
  then have h: "?R = (Installed, snd ?R)" by (simp add: prod_eq_iff)
  note T = Installed_moves_artifacts_only [OF h [unfolded example_run_def],
      folded example_run_def]
  have j: "journal (fs ?s) @ [OpMakeTempDir (temp_directory example_env)]
           @ map (\<lambda>r. OpWrite (source_path_of example_env r) (readAll r)) (replies' ?s)
           @ (if can_mkpath example_env (path' ?s) then [OpMkpath (path' ?s)] else [])
           @ map (\<lambda>r. OpRename (source_path_of example_env r) (dest_path_of example_env (path' ?s) r))
               (filter (\<lambda>r. \<not> is_signature example_env r) (replies' ?s))
           @ [OpRemoveRecursive (temp_directory example_env)] =
       [OpMakeTempDir ''/tmp/qt_temp.AbCdEf'',
        OpWrite ''/tmp/qt_temp.AbCdEf/blob'' ''BLOB'',
        OpWrite ''/tmp/qt_temp.AbCdEf/blob.sha1'' ''BOLB'',
        OpWrite ''/tmp/qt_temp.AbCdEf/libspotify.so.8'' ''LIB'',
        OpMkpath ''/dest'',
        OpRename ''/tmp/qt_temp.AbCdEf/blob'' ''/dest/blob'',
        OpRename ''/tmp/qt_temp.AbCdEf/libspotify.so.8'' ''/dest/libspotify.so.8'',
        OpRemoveRecursive ''/tmp/qt_temp.AbCdEf'']"
    by code_simp
  have out: "\<not> prefix (temp_directory example_env @ ''/'') (path' ?s @ ''/'')"
    by code_simp
  have blob: "replies' ?s ! 0 \<in> set (replies' ?s)"
    "\<not> is_signature example_env (replies' ?s ! 0)"
    "dest_path_of example_env (path' ?s) (replies' ?s ! 0) = ''/dest/blob''"
    "readAll (replies' ?s ! 0) = ''BLOB''"
    by code_simp+
  have sig: "replies' ?s ! 1 \<in> set (replies' ?s)"
    "is_signature example_env (replies' ?s ! 1)"
    "dest_path_of example_env (path' ?s) (replies' ?s ! 1) = ''/dest/blob.sha1''"
    "files (fs ?s) ''/dest/blob.sha1'' = None"
    by code_simp+
  have lib: "replies' ?s ! 2 \<in> set (replies' ?s)"
    "\<not> is_signature example_env (replies' ?s ! 2)"
    "dest_path_of example_env (path' ?s) (replies' ?s ! 2) = ''/dest/libspotify.so.8''"
    "readAll (replies' ?s ! 2) = ''LIB''"
    by code_simp+
  note T1 = T [THEN conjunct1]
    and T2 = T [THEN conjunct2, THEN conjunct1, THEN bspec, OF blob(1), THEN mp, OF blob(2),
      THEN conjunct2, THEN mp, OF out]
    and T2' = T [THEN conjunct2, THEN conjunct1, THEN bspec, OF lib(1), THEN mp, OF lib(2),
      THEN conjunct2, THEN mp, OF out]
    and T3 = T [THEN conjunct2, THEN conjunct2, THEN bspec, OF sig(1), THEN mp, OF sig(2),
      THEN mp, OF out]
  from T1 have 1: "journal (fs (snd ?R)) =
       [OpMakeTempDir ''/tmp/qt_temp.AbCdEf'',
        OpWrite ''/tmp/qt_temp.AbCdEf/blob'' ''BLOB'',
        OpWrite ''/tmp/qt_temp.AbCdEf/blob.sha1'' ''BOLB'',
        OpWrite ''/tmp/qt_temp.AbCdEf/libspotify.so.8'' ''LIB'',
        OpMkpath ''/dest'',
        OpRename ''/tmp/qt_temp.AbCdEf/blob'' ''/dest/blob'',
        OpRename ''/tmp/qt_temp.AbCdEf/libspotify.so.8'' ''/dest/libspotify.so.8'',
        OpRemoveRecursive ''/tmp/qt_temp.AbCdEf'']"
    unfolding j .
  from T2 have 2: "files (fs (snd ?R)) ''/dest/blob'' = Some (''BLOB'', 30549)"
    unfolding blob(3,4) .
  from T2' have 4: "files (fs (snd ?R)) ''/dest/libspotify.so.8'' = Some (''LIB'', 30549)"
    unfolding lib(3,4) .
  from T3 have 3: "files (fs (snd ?R)) ''/dest/blob.sha1'' = None"
    unfolding sig(3,4) .
  from h out 1 2 4 3 show ?thesis by (intro conjI)
qed




section \<open>Failures before installation\<close>

text \<open>
  C4. When the embedded public key does not load, a call of \<open>ReplyFinished\<close> touches
  nothing but the staging directory, and its result does not depend on the signature
  check in any way: replacing \<^verbatim>\<open>verifyMessage\<close> by any other function gives the same
  result. When all downloads have finished without error, the call ends at the failed
  write to the staging directory or at the failed key load, both of which come before the
  verification loop, with exactly one more failure message, no \<^verbatim>\<open>Finished()\<close> signal
  and the downloader released.
\<close>

theorem key_load_failure_installs_nothing:
  assumes "fromPEMFile env = None"
  shows "staging_only (temp_directory env) (fs s) (fs (snd (ReplyFinished env sender s)))
       \<and> ReplyFinished (env\<lparr>verifyMessage := v\<rparr>) sender s = ReplyFinished env sender s
       \<and> (error sender = NoError \<and> list_all isFinished (replies' s) \<longrightarrow>
            (fst (ReplyFinished env sender s) = WriteOpenFailed
               \<or> fst (ReplyFinished env sender s) = KeyLoadFailed)
          \<and> length (warnings (snd (ReplyFinished env sender s))) = Suc (length (warnings s))
          \<and> finished_emitted (snd (ReplyFinished env sender s)) = finished_emitted s
          \<and> deleted (snd (ReplyFinished env sender s)))"
proof (intro conjI impI)
  have exits: "fst (ReplyFinished env sender s) \<noteq> MoveFailed \<and>
      fst (ReplyFinished env sender s) \<noteq> Installed"
    using assms by (cases env sender s rule: ReplyFinished_cases) simp_all
  then show "staging_only (temp_directory env) (fs s) (fs (snd (ReplyFinished env sender s)))"
    by (simp add: no_install_staging_only)
  show "ReplyFinished (env\<lparr>verifyMessage := v\<rparr>) sender s = ReplyFinished env sender s"
    using assms
    by (simp add: ReplyFinished_def save_files_verifyMessage MakeTempDir_def
        split: prod.splits option.splits)
next
  assume a: "error sender = NoError \<and> list_all isFinished (replies' s)"
  then have nf: "\<not> list_ex (\<lambda>r. \<not> isFinished r) (replies' s)"
    by (simp add: list_all_iff list_ex_iff)
  show "fst (ReplyFinished env sender s) = WriteOpenFailed
      \<or> fst (ReplyFinished env sender s) = KeyLoadFailed"
    using assms a nf by (cases env sender s rule: ReplyFinished_cases) simp_all
  show "length (warnings (snd (ReplyFinished env sender s))) = Suc (length (warnings s))"
    using assms a nf by (cases env sender s rule: ReplyFinished_cases) simp_all
  show "finished_emitted (snd (ReplyFinished env sender s)) = finished_emitted s"
    using assms a nf by (cases env sender s rule: ReplyFinished_cases) simp_all
  show "deleted (snd (ReplyFinished env sender s))"
    using assms a nf by (cases env sender s rule: ReplyFinished_cases) simp_all
qed

text \<open>
  C4, in the concrete run without a key, with a signature that would have verified.
\<close>

theorem key_load_failure_installs_nothing_witness:
  "fromPEMFile example_env_no_key = None
   \<and> error (last (replies' (example_downloaded ''BOLB''))) = NoError
   \<and> list_all isFinished (replies' (example_downloaded ''BOLB''))
   \<and> staging_only (temp_directory example_env_no_key) (fs (example_downloaded ''BOLB''))
       (fs (snd (example_run example_env_no_key ''BOLB'')))
   \<and> example_run (example_env_no_key\<lparr>verifyMessage := (\<lambda>key message signature. False)\<rparr>) ''BOLB''
       = example_run example_env_no_key ''BOLB''
   \<and> fst (example_run example_env_no_key ''BOLB'') = KeyLoadFailed
   \<and> length (warnings (snd (example_run example_env_no_key ''BOLB''))) = 1
   \<and> finished_emitted (snd (example_run example_env_no_key ''BOLB'')) = 0
   \<and> deleted (snd (example_run example_env_no_key ''BOLB''))"
proof -
  have k: "fromPEMFile example_env_no_key = None" by code_simp
  have b: "error (last (replies' (example_downloaded ''BOLB''))) = NoError
      \<and> list_all isFinished (replies' (example_downloaded ''BOLB''))"
    by code_simp
  note T = key_load_failure_installs_nothing [OF k,
      of "example_downloaded ''BOLB''" "last (replies' (example_downloaded ''BOLB''))"
         "\<lambda>key message signature. False", folded example_run_def]
  note T3 = T [THEN conjunct2, THEN conjunct2, THEN mp, OF b]
  have e: "fst (example_run example_env_no_key ''BOLB'') = KeyLoadFailed"
    "Suc (length (warnings (example_downloaded ''BOLB''))) = 1"
    "finished_emitted (example_downloaded ''BOLB'') = 0"
    by code_simp+
  from T3 e have 3: "length (warnings (snd (example_run example_env_no_key ''BOLB''))) = 1"
    "finished_emitted (snd (example_run example_env_no_key ''BOLB'')) = 0"
    "deleted (snd (example_run example_env_no_key ''BOLB''))"
    by simp_all
  from k b T [THEN conjunct1] T [THEN conjunct2, THEN conjunct1] e(1) 3
  show ?thesis by (intro conjI) simp_all
qed

section \<open>The artifact path the verifier derives\<close>

text \<open>
  C10. The verification loop takes the artifact of a signature file at the path it gets
  from \<^verbatim>\<open>filename.remove(kSignatureSuffix)\<close>. For a signature path with an occurrence
  of the suffix at any place, \<^const>\<open>check_signature\<close> reads the artifact at the path
  without that occurrence and without any other one to its left or right; for a path
  without an occurrence it reads the path itself. For a signature path that ends in the
  suffix and has no other occurrence, it reads the artifact where the specification
  looks for it, at the path with the suffix stripped. When the verdict is negative, the
  path in the result of the loop, which the failure message shows, is the derived one.
  The staged signature path \<^verbatim>\<open>/tmp/a.sha1/qt_temp.AbCdEf/blob.sha1\<close> ends in the
  suffix and has it in the middle too: stripping the suffix gives the staged
  \<^verbatim>\<open>blob\<close>, against which the signature verifies, while \<^const>\<open>check_signature\<close>
  looks at \<^verbatim>\<open>/tmp/a/qt_temp.AbCdEf/blob\<close>, which is not there, and the call of
  \<^verbatim>\<open>ReplyFinished\<close> ends in the verification loop.
\<close>

theorem check_signature_removes_every_occurrence:
  "check_signature env f key (a @ kSignatureSuffix @ b) =
     verify_against env f key
       (remove_str kSignatureSuffix a @ remove_str kSignatureSuffix b) (a @ kSignatureSuffix @ b)
   \<and> (\<not> sublist kSignatureSuffix p \<longrightarrow> check_signature env f key p = verify_against env f key p p)
   \<and> (endsWith p kSignatureSuffix \<and> (\<forall>a b. p = a @ kSignatureSuffix @ b \<longrightarrow> b = []) \<longrightarrow>
        check_signature env f key p =
          verify_against env f key (strip_suffix kSignatureSuffix p) p)
   \<and> (check_signature env f key (a @ kSignatureSuffix @ b) = Some False \<longrightarrow>
        verify_signatures env f key ((a @ kSignatureSuffix @ b) # rest) =
          Invalid (remove_str kSignatureSuffix a @ remove_str kSignatureSuffix b))
   \<and> endsWith ''/tmp/a.sha1/qt_temp.AbCdEf/blob.sha1'' kSignatureSuffix
   \<and> ''/tmp/a.sha1/qt_temp.AbCdEf/blob.sha1'' =
       ''/tmp/a'' @ kSignatureSuffix @ ''/qt_temp.AbCdEf/blob.sha1''
   \<and> strip_suffix kSignatureSuffix ''/tmp/a.sha1/qt_temp.AbCdEf/blob.sha1'' =
       ''/tmp/a.sha1/qt_temp.AbCdEf/blob''
   \<and> verify_against example_env_sha1_dir (example_staged example_env_sha1_dir ''BOLB'') 0
       ''/tmp/a.sha1/qt_temp.AbCdEf/blob'' ''/tmp/a.sha1/qt_temp.AbCdEf/blob.sha1'' = Some True
   \<and> verify_against example_env_sha1_dir (example_staged example_env_sha1_dir ''BOLB'') 0
       ''/tmp/a/qt_temp.AbCdEf/blob'' ''/tmp/a.sha1/qt_temp.AbCdEf/blob.sha1'' = None
   \<and> check_signature example_env_sha1_dir (example_staged example_env_sha1_dir ''BOLB'') 0
       ''/tmp/a.sha1/qt_temp.AbCdEf/blob.sha1'' = None
   \<and> fst (example_run example_env_sha1_dir ''BOLB'') = VerifyOpenFailed"
proof (intro conjI impI)
  show 1: "check_signature env f key (a @ kSignatureSuffix @ b) =
     verify_against env f key
       (remove_str kSignatureSuffix a @ remove_str kSignatureSuffix b) (a @ kSignatureSuffix @ b)"
    by (simp only: check_signature_verify_against remove_str_every_occurrence)
  show "check_signature env f key p = verify_against env f key p p"
    if "\<not> sublist kSignatureSuffix p"
    using remove_str_id [OF that] by (simp only: check_signature_verify_against)
  show "check_signature env f key p = verify_against env f key (strip_suffix kSignatureSuffix p) p"
    if "endsWith p kSignatureSuffix \<and> (\<forall>a b. p = a @ kSignatureSuffix @ b \<longrightarrow> b = [])"
  proof -
    from that have "remove_str kSignatureSuffix p = strip_suffix kSignatureSuffix p"
      by (intro remove_str_only_suffix) simp_all
    then show ?thesis by (simp only: check_signature_verify_against)
  qed
  show "verify_signatures env f key ((a @ kSignatureSuffix @ b) # rest) =
          Invalid (remove_str kSignatureSuffix a @ remove_str kSignatureSuffix b)"
    if "check_signature env f key (a @ kSignatureSuffix @ b) = Some False"
    using that by (simp add: remove_str_every_occurrence)
qed code_simp+

text \<open>
  C10, in the concrete run with the temporary directory \<^verbatim>\<open>/tmp/qt_temp.AbCdEf\<close>:
  the staged \<^verbatim>\<open>blob\<close> has no occurrence of the suffix in its path, and as a
  signature path it would be checked against itself; \<^verbatim>\<open>blob.sha1\<close> has the suffix
  at its end only and is checked against the staged \<^verbatim>\<open>blob\<close>, with the verdict of
  \<^verbatim>\<open>verifyMessage\<close> on their bytes and, when that is negative, with the path of
  \<^verbatim>\<open>blob\<close> in the result of the loop.
\<close>

theorem check_signature_removes_every_occurrence_witness:
  "\<not> sublist kSignatureSuffix ''/tmp/qt_temp.AbCdEf/blob''
   \<and> check_signature example_env (example_staged example_env ''BOLB'') 0
       ''/tmp/qt_temp.AbCdEf/blob'' = Some False
   \<and> endsWith ''/tmp/qt_temp.AbCdEf/blob.sha1'' kSignatureSuffix
   \<and> ''/tmp/qt_temp.AbCdEf/blob.sha1'' = ''/tmp/qt_temp.AbCdEf/blob'' @ kSignatureSuffix
   \<and> strip_suffix kSignatureSuffix ''/tmp/qt_temp.AbCdEf/blob.sha1'' = ''/tmp/qt_temp.AbCdEf/blob''
   \<and> check_signature example_env (example_staged example_env ''BOLB'') 0
       ''/tmp/qt_temp.AbCdEf/blob.sha1'' = Some True
   \<and> check_signature example_env (example_staged example_env ''bad'') 0
       ''/tmp/qt_temp.AbCdEf/blob.sha1'' = Some False
   \<and> verify_signatures example_env (example_staged example_env ''bad'') 0
       [''/tmp/qt_temp.AbCdEf/blob.sha1''] = Invalid ''/tmp/qt_temp.AbCdEf/blob''"
proof -
  let ?f = "example_staged example_env ''BOLB''"
  let ?g = "example_staged example_env ''bad''"
  note T = check_signature_removes_every_occurrence
  have n: "\<not> sublist kSignatureSuffix ''/tmp/qt_temp.AbCdEf/blob''" by code_simp
  have "check_signature example_env ?f 0 ''/tmp/qt_temp.AbCdEf/blob'' =
      verify_against example_env ?f 0 ''/tmp/qt_temp.AbCdEf/blob'' ''/tmp/qt_temp.AbCdEf/blob''"
    by (rule T [THEN conjunct2, THEN conjunct1, THEN mp, OF n])
  also have "\<dots> = Some False" by code_simp
  finally have 1: "check_signature example_env ?f 0 ''/tmp/qt_temp.AbCdEf/blob'' = Some False" .
  have e: "endsWith ''/tmp/qt_temp.AbCdEf/blob.sha1'' kSignatureSuffix" by code_simp
  have p: "''/tmp/qt_temp.AbCdEf/blob.sha1'' = ''/tmp/qt_temp.AbCdEf/blob'' @ kSignatureSuffix"
    by code_simp
  have only: "\<forall>a b. ''/tmp/qt_temp.AbCdEf/blob.sha1'' = a @ kSignatureSuffix @ b \<longrightarrow> b = []"
    unfolding p using only_suffix [OF n] by blast
  have st: "strip_suffix kSignatureSuffix ''/tmp/qt_temp.AbCdEf/blob.sha1'' =
      ''/tmp/qt_temp.AbCdEf/blob''"
    by code_simp
  have "check_signature example_env ?f 0 ''/tmp/qt_temp.AbCdEf/blob.sha1'' =
      verify_against example_env ?f 0
        (strip_suffix kSignatureSuffix ''/tmp/qt_temp.AbCdEf/blob.sha1'')
        ''/tmp/qt_temp.AbCdEf/blob.sha1''"
    by (rule T [THEN conjunct2, THEN conjunct2, THEN conjunct1, THEN mp, OF conjI, OF e only])
  also have "\<dots> = Some True" by code_simp
  finally have 2: "check_signature example_env ?f 0 ''/tmp/qt_temp.AbCdEf/blob.sha1'' = Some True" .
  have "check_signature example_env ?g 0 (''/tmp/qt_temp.AbCdEf/blob'' @ kSignatureSuffix @ []) =
      verify_against example_env ?g 0
        (remove_str kSignatureSuffix ''/tmp/qt_temp.AbCdEf/blob'' @ remove_str kSignatureSuffix [])
        (''/tmp/qt_temp.AbCdEf/blob'' @ kSignatureSuffix @ [])"
    by (rule T [THEN conjunct1])
  also have "\<dots> = Some False" by code_simp
  finally have c: "check_signature example_env ?g 0
      (''/tmp/qt_temp.AbCdEf/blob'' @ kSignatureSuffix @ []) = Some False" .
  have "verify_signatures example_env ?g 0 ((''/tmp/qt_temp.AbCdEf/blob'' @ kSignatureSuffix @ []) # []) =
      Invalid (remove_str kSignatureSuffix ''/tmp/qt_temp.AbCdEf/blob'' @ remove_str kSignatureSuffix [])"
    by (rule T [THEN conjunct2, THEN conjunct2, THEN conjunct2, THEN conjunct1, THEN mp, OF c])
  also have "remove_str kSignatureSuffix ''/tmp/qt_temp.AbCdEf/blob'' @ remove_str kSignatureSuffix []
      = ''/tmp/qt_temp.AbCdEf/blob''"
    by code_simp
  finally have 4: "verify_signatures example_env ?g 0
      ((''/tmp/qt_temp.AbCdEf/blob'' @ kSignatureSuffix @ []) # []) = Invalid ''/tmp/qt_temp.AbCdEf/blob''" .
  have q: "''/tmp/qt_temp.AbCdEf/blob'' @ kSignatureSuffix @ [] = ''/tmp/qt_temp.AbCdEf/blob.sha1''"
    by code_simp
  from n 1 e p st 2 c [unfolded q] 4 [unfolded q] show ?thesis by (intro conjI)
qed


section \<open>Where the code falls short\<close>

text \<open>
  C2 fails on the code. In the concrete run with a signature that does not verify, the
  attempt ends in failure: the message is shown and the downloader released. The staging
  directory is still there, with the unverified \<^verbatim>\<open>blob\<close> in it, and no
  \<^verbatim>\<open>RemoveRecursive\<close> was made.
\<close>

theorem staging_directory_left_after_invalid_signature:
  "fst (example_run example_env ''bad'') = InvalidSignature
   \<and> warnings (snd (example_run example_env ''bad'')) =
       [''Invalid signature: /tmp/qt_temp.AbCdEf/blob'']
   \<and> deleted (snd (example_run example_env ''bad''))
   \<and> dirs (fs (snd (example_run example_env ''bad''))) ''/tmp/qt_temp.AbCdEf''
   \<and> files (fs (snd (example_run example_env ''bad''))) ''/tmp/qt_temp.AbCdEf/blob'' = Some (''BLOB'', 30549)
   \<and> journal (fs (snd (example_run example_env ''bad''))) =
       [OpMakeTempDir ''/tmp/qt_temp.AbCdEf'',
        OpWrite ''/tmp/qt_temp.AbCdEf/blob'' ''BLOB'',
        OpWrite ''/tmp/qt_temp.AbCdEf/blob.sha1'' ''bad'',
        OpWrite ''/tmp/qt_temp.AbCdEf/libspotify.so.8'' ''LIB'']"
  by code_simp

text \<open>
  C5 fails on the code. In the concrete run where the staged \<^verbatim>\<open>blob\<close> cannot be
  opened for reading, all downloads have finished without error, and the call ends with
  no failure message, no \<^verbatim>\<open>Finished()\<close> signal and the downloader not released;
  every reply has finished, so no further call follows.
\<close>

theorem unreadable_staged_file_is_not_reported:
  "list_all (\<lambda>r. isFinished r \<and> error r = NoError) (replies' (example_downloaded ''BOLB''))
   \<and> fst (example_run example_env_unreadable ''BOLB'') = VerifyOpenFailed
   \<and> warnings (snd (example_run example_env_unreadable ''BOLB'')) = []
   \<and> finished_emitted (snd (example_run example_env_unreadable ''BOLB'')) = 0
   \<and> reports (snd (example_run example_env_unreadable ''BOLB'')) = 0
   \<and> \<not> deleted (snd (example_run example_env_unreadable ''BOLB''))
   \<and> list_all isFinished (replies' (snd (example_run example_env_unreadable ''BOLB'')))"
  by code_simp

text \<open>
  C3 fails on the code. The temporary directory is \<^verbatim>\<open>/tmp/a.sha1/qt_temp.AbCdEf\<close>,
  the key loads, all three downloads have finished without error, and the bytes of
  \<^verbatim>\<open>blob.sha1\<close> do not verify against the bytes of \<^verbatim>\<open>blob\<close>. The verification
  loop looks for the artifact at \<^verbatim>\<open>/tmp/a/qt_temp.AbCdEf/blob\<close>, not at the staged
  \<^verbatim>\<open>blob\<close>. When no file is there, the call ends at the bare \<^verbatim>\<open>return\<close> of the
  loop: no failure message and no \<^verbatim>\<open>Finished()\<close> signal. When a file is there and
  \<^verbatim>\<open>blob.sha1\<close> signs it, the check passes and the call installs the staged
  \<^verbatim>\<open>blob\<close>, which the signature does not sign, in the destination directory and
  emits \<^verbatim>\<open>Finished()\<close>.
\<close>

theorem unsigned_blob_passes_below_sha1_directory:
  "temp_directory example_env_sha1_dir = ''/tmp/a.sha1/qt_temp.AbCdEf''
   \<and> fromPEMFile example_env_sha1_dir = Some 0
   \<and> list_all (\<lambda>r. isFinished r \<and> error r = NoError) (replies' (example_downloaded ''bad''))
   \<and> map (filename_of example_env_sha1_dir) (replies' (example_downloaded ''bad'')) =
       [''blob'', ''blob.sha1'', ''libspotify.so.8'']
   \<and> map readAll (replies' (example_downloaded ''bad'')) = [''BLOB'', ''bad'', ''LIB'']
   \<and> \<not> verifyMessage example_env_sha1_dir 0 ''BLOB'' ''bad''
   \<and> fst (example_run example_env_sha1_dir ''bad'') = VerifyOpenFailed
   \<and> warnings (snd (example_run example_env_sha1_dir ''bad'')) = []
   \<and> finished_emitted (snd (example_run example_env_sha1_dir ''bad'')) = 0
   \<and> reports (snd (example_run example_env_sha1_dir ''bad'')) = 0
   \<and> replies' example_planted = replies' (example_downloaded ''bad'')
   \<and> files (fs example_planted) ''/tmp/a/qt_temp.AbCdEf/blob'' = Some (''dab'', 1604)
   \<and> files (fs example_planted) ''/dest/blob'' = None
   \<and> verifyMessage example_env_sha1_dir 0 ''dab'' ''bad''
   \<and> fst example_planted_run = Installed
   \<and> warnings (snd example_planted_run) = []
   \<and> finished_emitted (snd example_planted_run) = 1
   \<and> files (fs (snd example_planted_run)) ''/dest/blob'' = Some (''BLOB'', 30549)
   \<and> files (fs (snd example_planted_run)) ''/dest/libspotify.so.8'' = Some (''LIB'', 30549)
   \<and> journal (fs (snd example_planted_run)) =
       [OpMakeTempDir ''/tmp/a.sha1/qt_temp.AbCdEf'',
        OpWrite ''/tmp/a.sha1/qt_temp.AbCdEf/blob'' ''BLOB'',
        OpWrite ''/tmp/a.sha1/qt_temp.AbCdEf/blob.sha1'' ''bad'',
        OpWrite ''/tmp/a.sha1/qt_temp.AbCdEf/libspotify.so.8'' ''LIB'',
        OpMkpath ''/dest'',
        OpRename ''/tmp/a.sha1/qt_temp.AbCdEf/blob'' ''/dest/blob'',
        OpRename ''/tmp/a.sha1/qt_temp.AbCdEf/libspotify.so.8'' ''/dest/libspotify.so.8'',
        OpRemoveRecursive ''/tmp/a.sha1/qt_temp.AbCdEf'']"
  by code_simp


section \<open>Progress\<close>

lemma take_bit_32_64: "take_bit 32 (take_bit 64 (k :: int)) = take_bit 32 k"
  by simp

lemma take_bit_32_add_64:
  "take_bit 32 (take_bit 64 (x :: int) + take_bit 64 y) = take_bit 32 (x + y)"
proof -
  have "take_bit 32 (take_bit 64 x + take_bit 64 y) =
      take_bit 32 (take_bit 32 (take_bit 64 x) + take_bit 32 (take_bit 64 y))"
    by (simp only: take_bit_add)
  also have "\<dots> = take_bit 32 (take_bit 32 x + take_bit 32 y)"
    by (simp only: take_bit_32_64)
  also have "\<dots> = take_bit 32 (x + y)"
    by (simp only: take_bit_add)
  finally show ?thesis .
qed

lemma ucast_down_add: "(ucast ((x :: 64 word) + y) :: 32 word) = ucast x + ucast y"
  by transfer (simp add: take_bit_32_add_64)

lemma ucast_scast_32: "(ucast (scast (p :: 32 word) :: 64 word) :: 32 word) = p"
  by transfer (simp add: take_bit_signed_take_bit)

lemma ucast_as_sint: "(ucast (b :: 64 word) :: 32 word) = word_of_int (sint b)"
  by transfer (simp add: take_bit_signed_take_bit)

lemma sint_word_of_int_32: "sint (word_of_int x :: 32 word) = int32 x"
proof -
  have "sint (word_of_int x :: 32 word) = signed_take_bit 31 x"
    by (simp add: sint_sbintrunc')
  also have "\<dots> = take_bit 32 (x + 2 ^ 31) - 2 ^ 31"
    using signed_take_bit_eq_take_bit_shift [of 31 x] by simp
  also have "\<dots> = int32 x"
    by (simp add: int32_def take_bit_eq_mod)
  finally show ?thesis .
qed

lemma int32_id: "- (2 ^ 31) \<le> x \<Longrightarrow> x < 2 ^ 31 \<Longrightarrow> int32 x = x"
  by (simp add: int32_def)

lemma ReplyProgress_fold:
  "foldl (\<lambda>(progress, total') r.
            (ucast ((scast progress :: 64 word) + bytesAvailable r) :: 32 word,
             total' + toInt (content_length r)))
      (p, t) rs =
   (p + sum_list (map (\<lambda>r. ucast (bytesAvailable r)) rs),
    t + sum_list (map (\<lambda>r. toInt (content_length r)) rs))"
  by (induction rs arbitrary: p t)
     (simp_all add: ucast_down_add ucast_scast_32 add.assoc)

lemma sum_list_word_of_int:
  "sum_list (map (\<lambda>r. (word_of_int (g r) :: 32 word)) rs) = word_of_int (sum_list (map g rs))"
  by (induction rs) simp_all

lemma progress_value_ReplyProgress:
  "progress_value (ReplyProgress s) = word_of_int (bytes_received_sum (replies' s))"
proof -
  have "progress_value (ReplyProgress s) =
      sum_list (map (\<lambda>r. (word_of_int (sint (bytesAvailable r)) :: 32 word)) (replies' s))"
    unfolding ReplyProgress_def ReplyProgress_fold
    by (simp add: ucast_as_sint del: of_int_sint)
  then show ?thesis
    by (simp only: sum_list_word_of_int bytes_received_sum_def)
qed

lemma progress_maximum_ReplyProgress:
  "progress_maximum (ReplyProgress s) =
     word_of_int (sum_list (map (\<lambda>r. sint (toInt (content_length r))) (replies' s)))"
proof -
  have "progress_maximum (ReplyProgress s) =
      sum_list (map (\<lambda>r. (word_of_int (sint (toInt (content_length r))) :: 32 word)) (replies' s))"
    unfolding ReplyProgress_def ReplyProgress_fold by simp
  then show ?thesis
    by (simp only: sum_list_word_of_int)
qed

lemma sint_toInt:
  "sint (toInt (content_length r)) =
     (if - (2 ^ 31) \<le> bytes_total r \<and> bytes_total r < 2 ^ 31 then bytes_total r else 0)"
  by (simp add: toInt_def bytes_total_def sint_word_of_int_32 int32_id split: option.splits)

text \<open>
  C9 as stated fails. With two replies that have received one gibibyte each, the sum of
  the bytes received is 2147483648; the value handed to the progress dialog is
  -2147483648.
\<close>

theorem progress_sum_overflow_counterexample:
  "bytes_received_sum (replies' example_gibibytes) = 2147483648
   \<and> sint (progress_value (ReplyProgress example_gibibytes)) = - 2147483648
   \<and> sint (progress_value (ReplyProgress example_gibibytes))
       \<noteq> bytes_received_sum (replies' example_gibibytes)"
  by code_simp

text \<open>
  C9, amended. \<^verbatim>\<open>ReplyProgress\<close> hands the progress dialog, as value, the sum of the
  replies' \<^verbatim>\<open>bytesAvailable()\<close> reduced to a 32-bit \<^verbatim>\<open>int\<close> and, as maximum, the
  sum of what \<^verbatim>\<open>toInt()\<close> reads from their \<^verbatim>\<open>Content-Length\<close> headers, reduced
  likewise. The value is the exact sum of the bytes received whenever that sum fits a
  32-bit \<^verbatim>\<open>int\<close>; the maximum is the exact sum of the announced totals whenever each of
  them and their sum fit. Both are computed from the replies alone, whatever was handed
  over before, and an absent header counts as 0.
\<close>

theorem ReplyProgress_reports_int_sums:
  "sint (progress_value (ReplyProgress s)) = int32 (bytes_received_sum (replies' s))
   \<and> sint (progress_maximum (ReplyProgress s)) =
       int32 (sum_list (map (\<lambda>r. sint (toInt (content_length r))) (replies' s)))
   \<and> (- (2 ^ 31) \<le> bytes_received_sum (replies' s) \<and> bytes_received_sum (replies' s) < 2 ^ 31 \<longrightarrow>
        sint (progress_value (ReplyProgress s)) = bytes_received_sum (replies' s))
   \<and> (list_all (\<lambda>r. - (2 ^ 31) \<le> bytes_total r \<and> bytes_total r < 2 ^ 31) (replies' s)
        \<and> - (2 ^ 31) \<le> bytes_total_sum (replies' s) \<and> bytes_total_sum (replies' s) < 2 ^ 31 \<longrightarrow>
        sint (progress_maximum (ReplyProgress s)) = bytes_total_sum (replies' s))
   \<and> progress_value (ReplyProgress (s\<lparr>progress_value := v, progress_maximum := m\<rparr>)) =
       progress_value (ReplyProgress s)
   \<and> progress_maximum (ReplyProgress (s\<lparr>progress_value := v, progress_maximum := m\<rparr>)) =
       progress_maximum (ReplyProgress s)
   \<and> toInt [] = 0"
proof (intro conjI impI)
  show v: "sint (progress_value (ReplyProgress s)) = int32 (bytes_received_sum (replies' s))"
    by (simp only: progress_value_ReplyProgress sint_word_of_int_32)
  show m: "sint (progress_maximum (ReplyProgress s)) =
       int32 (sum_list (map (\<lambda>r. sint (toInt (content_length r))) (replies' s)))"
    by (simp only: progress_maximum_ReplyProgress sint_word_of_int_32)
  show "sint (progress_value (ReplyProgress s)) = bytes_received_sum (replies' s)"
    if "- (2 ^ 31) \<le> bytes_received_sum (replies' s) \<and> bytes_received_sum (replies' s) < 2 ^ 31"
    using that v by (simp add: int32_id)
  show "sint (progress_maximum (ReplyProgress s)) = bytes_total_sum (replies' s)"
    if a: "list_all (\<lambda>r. - (2 ^ 31) \<le> bytes_total r \<and> bytes_total r < 2 ^ 31) (replies' s)
        \<and> - (2 ^ 31) \<le> bytes_total_sum (replies' s) \<and> bytes_total_sum (replies' s) < 2 ^ 31"
  proof -
    from a have "\<forall>r\<in>set (replies' s). sint (toInt (content_length r)) = bytes_total r"
      by (simp add: list_all_iff sint_toInt)
    then have "map (\<lambda>r. sint (toInt (content_length r))) (replies' s) = map bytes_total (replies' s)"
      by (intro map_cong) simp_all
    then have "sum_list (map (\<lambda>r. sint (toInt (content_length r))) (replies' s)) =
        bytes_total_sum (replies' s)"
      by (simp only: bytes_total_sum_def)
    with m a show ?thesis by (simp add: int32_id)
  qed
  show "progress_value (ReplyProgress (s\<lparr>progress_value := v, progress_maximum := m\<rparr>)) =
       progress_value (ReplyProgress s)"
    by (simp add: progress_value_ReplyProgress)
  show "progress_maximum (ReplyProgress (s\<lparr>progress_value := v, progress_maximum := m\<rparr>)) =
       progress_maximum (ReplyProgress s)"
    by (simp add: progress_maximum_ReplyProgress)
  show "toInt [] = 0"
    by (simp add: toInt_def parse_int_def)
qed

text \<open>
  C9, amended, with two replies of 10 and 5 bytes, the first announcing 100.
\<close>

theorem ReplyProgress_reports_int_sums_witness:
  "- (2 ^ 31) \<le> bytes_received_sum (replies' example_progress)
   \<and> bytes_received_sum (replies' example_progress) < 2 ^ 31
   \<and> list_all (\<lambda>r. - (2 ^ 31) \<le> bytes_total r \<and> bytes_total r < 2 ^ 31) (replies' example_progress)
   \<and> - (2 ^ 31) \<le> bytes_total_sum (replies' example_progress)
   \<and> bytes_total_sum (replies' example_progress) < 2 ^ 31
   \<and> sint (progress_value (ReplyProgress example_progress)) = 15
   \<and> sint (progress_maximum (ReplyProgress example_progress)) = 100"
proof -
  have v: "- (2 ^ 31) \<le> bytes_received_sum (replies' example_progress)
      \<and> bytes_received_sum (replies' example_progress) < 2 ^ 31"
    by code_simp
  have m: "list_all (\<lambda>r. - (2 ^ 31) \<le> bytes_total r \<and> bytes_total r < 2 ^ 31) (replies' example_progress)
      \<and> - (2 ^ 31) \<le> bytes_total_sum (replies' example_progress)
      \<and> bytes_total_sum (replies' example_progress) < 2 ^ 31"
    by code_simp
  have e: "bytes_received_sum (replies' example_progress) = 15"
    "bytes_total_sum (replies' example_progress) = 100"
    by code_simp+
  note T = ReplyProgress_reports_int_sums [of example_progress 0 0]
  from T [THEN conjunct2, THEN conjunct2, THEN conjunct1, THEN mp, OF v]
  have 1: "sint (progress_value (ReplyProgress example_progress)) = 15"
    unfolding e .
  from T [THEN conjunct2, THEN conjunct2, THEN conjunct2, THEN conjunct1, THEN mp, OF m]
  have 2: "sint (progress_maximum (ReplyProgress example_progress)) = 100"
    unfolding e .
  from v m 1 2 show ?thesis by (intro conjI) simp_all
qed


end
